theory Spec2Isabelle
  imports Complex_Main "HOL-Library.Word"
begin

section \<open>JavaScript values as the script sees them\<close>

text \<open>
  The development follows \<^verbatim>\<open>src/src/post_x.js\<close>; \<^verbatim>\<open>src/Code.gs\<close> is the older variant of
  the same script (no media, no plan presets, the columns one to the left) with the same
  selector, publishers and coordinator.

  A JavaScript string is a sequence of UTF-16 code units. \<^verbatim>\<open>String.prototype.trim\<close>, the
  regular expression class \<^verbatim>\<open>\s\<close> and \<^verbatim>\<open>Array.from\<close> are defined on code units and code
  points, so the model keeps the code units.
\<close>

type_synonym unit16 = "16 word"
type_synonym jsstring = "unit16 list"

definition ascii :: "string \<Rightarrow> jsstring" where
  "ascii s = map (\<lambda>c. of_nat (of_char c)) s"

text \<open>White space and line terminators of ECMAScript: what \<^verbatim>\<open>trim\<close> strips and \<^verbatim>\<open>\s\<close> matches.\<close>

definition isWhiteSpace :: "unit16 \<Rightarrow> bool" where
  "isWhiteSpace c \<longleftrightarrow>
     c = 0x09 \<or> c = 0x0A \<or> c = 0x0B \<or> c = 0x0C \<or> c = 0x0D \<or> c = 0x20 \<or> c = 0xA0 \<or>
     c = 0x1680 \<or> (0x2000 \<le> c \<and> c \<le> 0x200A) \<or> c = 0x2028 \<or> c = 0x2029 \<or>
     c = 0x202F \<or> c = 0x205F \<or> c = 0x3000 \<or> c = 0xFEFF"

definition trim :: "jsstring \<Rightarrow> jsstring" where
  "trim s = rev (dropWhile isWhiteSpace (rev (dropWhile isWhiteSpace s)))"

text \<open>
  \<^verbatim>\<open>toLowerCase\<close> on the ASCII letters. The script compares lowered text only with the
  status words, and no character outside ASCII lowers to one of their letters, so every
  comparison of the script is decided as in JavaScript.
\<close>

definition lowerUnit :: "unit16 \<Rightarrow> unit16" where
  "lowerUnit c = (if 0x41 \<le> c \<and> c \<le> 0x5A then c + 0x20 else c)"

definition toLowerCase :: "jsstring \<Rightarrow> jsstring" where
  "toLowerCase s = map lowerUnit s"

text \<open>
  \<^verbatim>\<open>Array.from(text)\<close> iterates by code point: a high surrogate followed by a low surrogate
  is one element, every other code unit (a lone surrogate too) is one element.
\<close>

definition isHighSurrogate :: "unit16 \<Rightarrow> bool" where
  "isHighSurrogate c \<longleftrightarrow> 0xD800 \<le> c \<and> c \<le> 0xDBFF"

definition isLowSurrogate :: "unit16 \<Rightarrow> bool" where
  "isLowSurrogate c \<longleftrightarrow> 0xDC00 \<le> c \<and> c \<le> 0xDFFF"

fun arrayFrom :: "jsstring \<Rightarrow> jsstring list" where
  "arrayFrom [] = []"
| "arrayFrom [c] = [[c]]"
| "arrayFrom (c # d # cs) =
     (if isHighSurrogate c \<and> isLowSurrogate d then [c, d] # arrayFrom cs
      else [c] # arrayFrom (d # cs))"

section \<open>The character counter\<close>

text \<open>
  The pattern \<^verbatim>\<open>/https?:\/\/[^\s]+/gi\<close>. Under the flag \<^verbatim>\<open>i\<close> a literal letter matches
  its two ASCII cases (the canonicalisation of a character outside ASCII is never an ASCII
  letter). \<^verbatim>\<open>matchLiteral p s\<close> is the rest of \<open>s\<close> after the literal \<open>p\<close>, if \<open>s\<close> starts
  with it.
\<close>

definition canonicalize :: "unit16 \<Rightarrow> unit16" where
  "canonicalize c = (if 0x61 \<le> c \<and> c \<le> 0x7A then c - 0x20 else c)"

fun matchLiteral :: "jsstring \<Rightarrow> jsstring \<Rightarrow> jsstring option" where
  "matchLiteral [] s = Some s"
| "matchLiteral (p # ps) [] = None"
| "matchLiteral (p # ps) (c # cs) =
     (if canonicalize c = canonicalize p then matchLiteral ps cs else None)"

text \<open>
  One attempt of the pattern at the start of \<open>s\<close>: the matched text and the text after it.
  \<^verbatim>\<open>s?\<close> is greedy and backtracks to the empty match; \<^verbatim>\<open>[^\s]+\<close> takes the longest run
  of characters that are not white space, and needs one.
\<close>

definition matchUrlAt :: "jsstring \<Rightarrow> (jsstring \<times> jsstring) option" where
  "matchUrlAt s =
     (case matchLiteral (ascii ''http'') s of
        None \<Rightarrow> None
      | Some r1 \<Rightarrow>
          (case (case matchLiteral (ascii ''s'') r1 of
                   None \<Rightarrow> matchLiteral (ascii ''://'') r1
                 | Some r2 \<Rightarrow>
                     (case matchLiteral (ascii ''://'') r2 of
                        None \<Rightarrow> matchLiteral (ascii ''://'') r1
                      | Some r3 \<Rightarrow> Some r3)) of
             None \<Rightarrow> None
           | Some r3 \<Rightarrow>
               (let rest = dropWhile (\<lambda>c. \<not> isWhiteSpace c) r3
                in if takeWhile (\<lambda>c. \<not> isWhiteSpace c) r3 = [] then None
                   else Some (take (length s - length rest) s, rest))))"

lemma matchLiteral_length:
  "matchLiteral p s = Some r \<Longrightarrow> length r + length p = length s"
  by (induction p s rule: matchLiteral.induct) (auto split: if_splits)

lemma matchUrlAt_shorter:
  assumes "matchUrlAt s = Some (m, rest)"
  shows "length rest < length s"
proof -
  from assms obtain r1 where r1: "matchLiteral (ascii ''http'') s = Some r1"
    by (auto simp: matchUrlAt_def split: option.splits)
  let ?scheme = "case matchLiteral (ascii ''s'') r1 of
                   None \<Rightarrow> matchLiteral (ascii ''://'') r1
                 | Some r2 \<Rightarrow>
                     (case matchLiteral (ascii ''://'') r2 of
                        None \<Rightarrow> matchLiteral (ascii ''://'') r1
                      | Some r3 \<Rightarrow> Some r3)"
  from assms r1 obtain r3 where r3: "?scheme = Some r3"
    and rest: "rest = dropWhile (\<lambda>c. \<not> isWhiteSpace c) r3"
    by (auto simp: matchUrlAt_def Let_def split: option.splits if_splits)
  have "length r3 \<le> length r1"
    using r3 by (auto split: option.splits dest!: matchLiteral_length)
  moreover have "length rest \<le> length r3"
    unfolding rest by (rule length_dropWhile_le)
  moreover have "length r1 < length s"
    using matchLiteral_length [OF r1] by (simp add: ascii_def)
  ultimately show ?thesis by linarith
qed

text \<open>\<^verbatim>\<open>text.match(urlPattern)\<close> with the flag \<^verbatim>\<open>g\<close>: every match, left to right, the next
  attempt starting where the last match ended (one code unit further after a failure).
  The empty list stands for the \<^verbatim>\<open>null\<close> that JavaScript returns when nothing matches.\<close>

function urlMatches :: "jsstring \<Rightarrow> jsstring list" where
  "urlMatches [] = []"
| "urlMatches (c # cs) =
     (case matchUrlAt (c # cs) of
        None \<Rightarrow> urlMatches cs
      | Some (m, rest) \<Rightarrow> m # urlMatches rest)"
  by pat_completeness auto
termination
  by (relation "measure length") (auto dest: matchUrlAt_shorter)

text \<open>\<^verbatim>\<open>text.replace(urlPattern, '')\<close>: the text with every match removed.\<close>

function removeUrls :: "jsstring \<Rightarrow> jsstring" where
  "removeUrls [] = []"
| "removeUrls (c # cs) =
     (case matchUrlAt (c # cs) of
        None \<Rightarrow> c # removeUrls cs
      | Some (m, rest) \<Rightarrow> removeUrls rest)"
  by pat_completeness auto
termination
  by (relation "measure length") (auto dest: matchUrlAt_shorter)

definition urlLength :: nat where
  "urlLength = 23"

definition countTwitterCharacters :: "jsstring \<Rightarrow> nat" where
  "countTwitterCharacters text =
     (if text = [] then 0
      else
        (let urls = urlMatches text;
             urlCount = (if urls = [] then 0 else length urls);
             processedText = (if urls = [] then text else removeUrls text);
             textLength = length (arrayFrom processedText)
         in textLength + urlCount * urlLength))"

section \<open>Cell values and the JavaScript runtime\<close>

text \<open>
  \<^verbatim>\<open>getValues()\<close> gives a string, a number, a boolean or a date for each cell (the empty
  string for an empty cell); reading past the end of a row array gives \<^verbatim>\<open>undefined\<close>.
  A number cell holds a finite double, kept here as the rational it denotes: the script
  only compares it with 1 and floors it, which is exact. A date is its time value in
  milliseconds since the epoch, \<open>None\<close> for an invalid date.
\<close>

datatype jsval =
    Undefined
  | Null
  | JStr jsstring
  | JNum rat
  | JBool bool
  | JDate int

type_synonym jsdate = "int option"

datatype jserror = JsError jsstring

datatype propKey = XPlanType | X_API_KEY | X_API_SECRET | X_ACCESS_TOKEN | X_ACCESS_TOKEN_SECRET

datatype status = Pending | Posting | Posted | Failed

text \<open>
  What the run writes and calls, in the order it happens: \<^verbatim>\<open>setValue\<close> on a cell (row,
  column, value), the console line of the thread loop that announces a row (index, count,
  row), one call of \<^verbatim>\<open>postSingleTweet_\<close> (text, reply target, media ids) with its outcome
  (the thrown error, or the id and URL of the new post), \<^verbatim>\<open>Utilities.sleep\<close>, and
  \<^verbatim>\<open>lock.releaseLock()\<close>.
\<close>

datatype event =
    SetValue nat nat jsval
  | ThreadLog nat nat nat
  | Tweet jsstring "jsstring option" "jsstring list" "jserror + jsstring \<times> jsstring"
  | Sleep nat
  | ReleaseLock

text \<open>
  The environment of a run: what the JavaScript runtime and the services of the platform
  answer. None of it is code of the script.
  \<^item> \<open>tzOffsetMs\<close>: local time minus UTC. The script's time zone is taken to have a constant
    offset (as Asia/Tokyo has), so local midnight and \<^verbatim>\<open>setHours\<close> are linear in the time
    value.
  \<^item> \<open>numberToString\<close>, \<open>dateToString\<close>: \<^verbatim>\<open>String(v)\<close> of a number that is not a small
    integer, and of a date. \<open>stringToNumber\<close>: \<^verbatim>\<open>Number(s)\<close> of a string, \<open>None\<close> when it is
    \<^verbatim>\<open>NaN\<close> or infinite. \<open>dateParse\<close>: the time value of \<^verbatim>\<open>new Date(s)\<close>, \<open>None\<close> when
    invalid.
  \<^item> \<open>sheetFound\<close>: whether \<^verbatim>\<open>getSheetByName\<close> finds the sheet.
  \<^item> \<open>extractUrlFromCell\<close>: the result of \<^verbatim>\<open>extractUrlFromCell_\<close> on a cell (row, column); it
    reads the rich text and the formula of the cell, which the value grid does not hold.
  \<^item> \<open>scriptProperty\<close>: the script properties.
  \<^item> \<open>getImagesFromCell\<close>, \<open>uploadMediaToTwitter\<close>: the media collaborators, with the error
    they throw or their result.
  \<^item> \<open>fetchTweet\<close>: the answer of the posting API to a call (text, reply target, media ids)
    after the events so far: the error that \<^verbatim>\<open>postSingleTweet_\<close> throws, or \<^verbatim>\<open>data.id\<close>.
\<close>

record env =
  tzOffsetMs :: int
  numberToString :: "rat \<Rightarrow> jsstring"
  dateToString :: "int \<Rightarrow> jsstring"
  stringToNumber :: "jsstring \<Rightarrow> rat option"
  dateParse :: "jsstring \<Rightarrow> int option"
  sheetFound :: bool
  extractUrlFromCell :: "nat \<Rightarrow> nat \<Rightarrow> jsstring"
  scriptProperty :: "propKey \<Rightarrow> jsstring option"
  getImagesFromCell :: "nat \<Rightarrow> jserror + nat list"
  uploadMediaToTwitter :: "nat \<Rightarrow> jserror + jsstring"
  fetchTweet :: "event list \<Rightarrow> jsstring \<Rightarrow> jsstring option \<Rightarrow> jsstring list \<Rightarrow> jserror + jsstring"

fun truthy :: "jsval \<Rightarrow> bool" where
  "truthy Undefined = False"
| "truthy Null = False"
| "truthy (JStr s) = (s \<noteq> [])"
| "truthy (JNum q) = (q \<noteq> 0)"
| "truthy (JBool b) = b"
| "truthy (JDate t) = True"

text \<open>Decimal digits of a natural number, as \<^verbatim>\<open>String(n)\<close> and template literals print it.\<close>

fun digitsOf :: "nat \<Rightarrow> jsstring" where
  "digitsOf n = (if n < 10 then [0x30 + of_nat n] else digitsOf (n div 10) @ [0x30 + of_nat (n mod 10)])"

declare digitsOf.simps [simp del]

definition intToString :: "int \<Rightarrow> jsstring" where
  "intToString i = (if i < 0 then 0x2D # digitsOf (nat (- i)) else digitsOf (nat i))"

text \<open>\<^verbatim>\<open>String(v)\<close>. An integer below \<open>10\<^sup>2\<^sup>1\<close> in absolute value prints as its decimal digits.\<close>

fun jsString :: "env \<Rightarrow> jsval \<Rightarrow> jsstring" where
  "jsString E Undefined = ascii ''undefined''"
| "jsString E Null = ascii ''null''"
| "jsString E (JStr s) = s"
| "jsString E (JNum q) =
     (if q = of_int \<lfloor>q\<rfloor> \<and> \<bar>q\<bar> < 10 ^ 21 then intToString \<lfloor>q\<rfloor> else numberToString E q)"
| "jsString E (JBool b) = (if b then ascii ''true'' else ascii ''false'')"
| "jsString E (JDate t) = dateToString E t"

text \<open>\<^verbatim>\<open>String(v || '').trim()\<close>, the way the script reads a text cell.\<close>

definition cellText :: "env \<Rightarrow> jsval \<Rightarrow> jsstring" where
  "cellText E v = trim (jsString E (if truthy v then v else JStr []))"

text \<open>\<^verbatim>\<open>Number(v)\<close>, \<open>None\<close> when the result is \<^verbatim>\<open>NaN\<close> or infinite (the script asks
  \<^verbatim>\<open>Number.isFinite\<close> only).\<close>

fun toNumber :: "env \<Rightarrow> jsval \<Rightarrow> rat option" where
  "toNumber E Undefined = None"
| "toNumber E Null = Some 0"
| "toNumber E (JStr s) = stringToNumber E s"
| "toNumber E (JNum q) = Some q"
| "toNumber E (JBool b) = Some (if b then 1 else 0)"
| "toNumber E (JDate t) = Some (of_int t)"

text \<open>
  \<^verbatim>\<open>parseInt(s, 10)\<close>: leading white space, an optional sign, then the longest run of decimal
  digits; whatever follows the digits is ignored. \<open>None\<close> is \<^verbatim>\<open>NaN\<close> (no digit).
\<close>

definition isDigit :: "unit16 \<Rightarrow> bool" where
  "isDigit c \<longleftrightarrow> 0x30 \<le> c \<and> c \<le> 0x39"

definition digitsValue :: "jsstring \<Rightarrow> nat" where
  "digitsValue ds = foldl (\<lambda>a c. 10 * a + unat (c - 0x30)) 0 ds"

definition parseInt10 :: "jsstring \<Rightarrow> int option" where
  "parseInt10 s =
     (let t = dropWhile isWhiteSpace s;
          negative = (t \<noteq> [] \<and> hd t = 0x2D);
          u = (if t \<noteq> [] \<and> (hd t = 0x2B \<or> hd t = 0x2D) then tl t else t);
          z = takeWhile isDigit u
      in if z = [] then None
         else Some (if negative then - int (digitsValue z) else int (digitsValue z)))"



subsection \<open>Dates\<close>

definition msPerDay :: int where
  "msPerDay = 86400000"

definition timeClip :: "int \<Rightarrow> jsdate" where
  "timeClip t = (if \<bar>t\<bar> \<le> 8640000000000000 then Some t else None)"

text \<open>\<^verbatim>\<open>d.setHours(h, m, 0, 0)\<close>: the local day of \<open>d\<close> at \<open>h:m\<close>.\<close>

definition setHours :: "env \<Rightarrow> jsdate \<Rightarrow> int \<Rightarrow> int \<Rightarrow> jsdate" where
  "setHours E d h m =
     (case d of
        None \<Rightarrow> None
      | Some t \<Rightarrow>
          timeClip (((t + tzOffsetMs E) div msPerDay) * msPerDay + h * 3600000 + m * 60000
                    - tzOffsetMs E))"

text \<open>\<^verbatim>\<open>d.setDate(d.getDate() + n)\<close>: \<open>n\<close> days later, at the same local time.\<close>

definition addDays :: "jsdate \<Rightarrow> int \<Rightarrow> jsdate" where
  "addDays d n = (case d of None \<Rightarrow> None | Some t \<Rightarrow> timeClip (t + n * msPerDay))"

text \<open>\<^verbatim>\<open>new Date(1899, 11, 31)\<close>: local midnight of 31 December 1899, 25568 days before the
  epoch.\<close>

definition serialBaseDate :: "env \<Rightarrow> jsdate" where
  "serialBaseDate E = Some (- 25568 * msPerDay - tzOffsetMs E)"

section \<open>The configuration\<close>

definition dataStartRow :: nat where "dataStartRow = 2"
definition columns_content :: nat where "columns_content = 1"
definition columns_image :: nat where "columns_image = 3"
definition columns_noteUrl :: nat where "columns_noteUrl = 4"
definition columns_day :: nat where "columns_day = 5"
definition columns_hour :: nat where "columns_hour = 6"
definition columns_minute :: nat where "columns_minute = 7"
definition columns_postedUrl :: nat where "columns_postedUrl = 8"
definition columns_threadGroupId :: nat where "columns_threadGroupId = 9"
definition columns_status :: nat where "columns_status = 10"
definition characterLimit_enabled :: bool where "characterLimit_enabled = True"
definition characterLimit_skipOnExceed :: bool where "characterLimit_skipOnExceed = True"
definition toleranceMinutes :: int where "toleranceMinutes = 5"

fun statuses :: "status \<Rightarrow> jsstring" where
  "statuses Pending = ascii ''pending''"
| "statuses Posting = ascii ''posting''"
| "statuses Posted = ascii ''posted''"
| "statuses Failed = ascii ''failed''"

section \<open>The sheet\<close>

text \<open>
  The sheet is the list of its rows, row 1 first, up to the last row with content; a row is
  the list of its cells from column A, and the cells after the stored ones are empty.
  \<^verbatim>\<open>getRange(startRow, 1, rowCount, numColumns).getValues()\<close> is one array of \<open>numColumns\<close>
  values per row.
\<close>

type_synonym sheet = "jsval list list"

definition getLastRow :: "sheet \<Rightarrow> nat" where
  "getLastRow sh = length sh"

definition cellAt :: "jsval list \<Rightarrow> nat \<Rightarrow> jsval" where
  "cellAt r j = (if j < length r then r ! j else JStr [])"

definition getValues :: "sheet \<Rightarrow> nat \<Rightarrow> nat \<Rightarrow> nat \<Rightarrow> jsval list list" where
  "getValues sh startRow rowCount numColumns =
     map (\<lambda>r. map (cellAt r) [0..<numColumns]) (take rowCount (drop (startRow - 1) sh))"

text \<open>\<^verbatim>\<open>row[k]\<close> on a JavaScript array.\<close>

definition jsIndex :: "jsval list \<Rightarrow> nat \<Rightarrow> jsval" where
  "jsIndex row k = (if k < length row then row ! k else Undefined)"

section \<open>The due-row selector\<close>

text \<open>A row as the selector and the thread resolver hand it on. The thread resolver fills
  \<open>rowNumber\<close>, \<open>content\<close> and \<open>threadGroupId\<close> only.\<close>

record target =
  rowNumber :: nat
  content :: jsstring
  noteUrl :: "jsstring option"
  scheduledAt :: "int option"
  threadGroupId :: "jsstring option"

text \<open>\<^verbatim>\<open>parseTimeCell(value, label, max)\<close>; \<open>None\<close> is its \<^verbatim>\<open>null\<close>.\<close>

definition parseTimeCell :: "env \<Rightarrow> jsval \<Rightarrow> int \<Rightarrow> int option" where
  "parseTimeCell E v mx =
     (if v = JStr [] \<or> v = Null \<or> v = Undefined then Some 0
      else
        (case parseInt10 (trim (jsString E v)) of
           None \<Rightarrow> None
         | Some parsed \<Rightarrow> if parsed < 0 \<or> parsed > mx then None else Some parsed))"

text \<open>The inner closure \<^verbatim>\<open>baseDate\<close>: \<open>None\<close> is \<^verbatim>\<open>null\<close>, \<open>Some d\<close> a date object (which may
  be invalid).\<close>

definition baseDateOf :: "env \<Rightarrow> jsval \<Rightarrow> jsdate option" where
  "baseDateOf E dayValue =
     (case dayValue of
        JDate t \<Rightarrow> Some (setHours E (Some t) 0 0)
      | _ \<Rightarrow>
          (case toNumber E dayValue of
             Some numeric \<Rightarrow>
               if numeric < 1 then None
               else Some (setHours E (addDays (serialBaseDate E) \<lfloor>numeric\<rfloor>) 0 0)
           | None \<Rightarrow>
               (case dateParse E (jsString E dayValue) of
                  None \<Rightarrow> None
                | Some t \<Rightarrow> Some (setHours E (Some t) 0 0))))"

text \<open>The closure \<^verbatim>\<open>scheduledAt\<close>: the time value of the resolved date, \<open>None\<close> for \<^verbatim>\<open>null\<close>.\<close>

definition scheduledAtOf :: "env \<Rightarrow> jsval \<Rightarrow> jsval \<Rightarrow> jsval \<Rightarrow> int option" where
  "scheduledAtOf E dayValue hourValue minuteValue =
     (if dayValue = JStr [] \<or> dayValue = Null \<or> dayValue = Undefined then None
      else
        (case baseDateOf E dayValue of
           None \<Rightarrow> None
         | Some baseDate \<Rightarrow>
             (let hourParsed = parseTimeCell E hourValue 23;
                  minuteParsed = parseTimeCell E minuteValue 59
              in case hourParsed of
                   None \<Rightarrow> None
                 | Some h \<Rightarrow>
                     (case minuteParsed of
                        None \<Rightarrow> None
                      | Some m \<Rightarrow> setHours E baseDate h m))))"

definition toleranceMs :: int where
  "toleranceMs = toleranceMinutes * 60 * 1000"

text \<open>What the loop body reads from one row array.\<close>

definition rowContent :: "env \<Rightarrow> jsval list \<Rightarrow> jsstring" where
  "rowContent E row = cellText E (jsIndex row (columns_content - 1))"

definition rowStatus :: "env \<Rightarrow> jsval list \<Rightarrow> jsstring" where
  "rowStatus E row = toLowerCase (cellText E (jsIndex row (columns_status - 1)))"

definition rowGroupId :: "env \<Rightarrow> jsval list \<Rightarrow> jsstring" where
  "rowGroupId E row = cellText E (jsIndex row (columns_threadGroupId - 1))"

definition rowScheduledAt :: "env \<Rightarrow> jsval list \<Rightarrow> int option" where
  "rowScheduledAt E row =
     scheduledAtOf E (jsIndex row (columns_day - 1)) (jsIndex row (columns_hour - 1))
       (jsIndex row (columns_minute - 1))"

definition orNull :: "jsstring \<Rightarrow> jsstring option" where
  "orNull s = (if s = [] then None else Some s)"

text \<open>One pass of the loop body of \<^verbatim>\<open>findNextPublishableRow_\<close>: the object it returns, or
  \<open>None\<close> when it goes on to the next row (each \<^verbatim>\<open>continue\<close>).\<close>

definition selectRow :: "env \<Rightarrow> int \<Rightarrow> nat \<Rightarrow> jsval list \<Rightarrow> target option" where
  "selectRow E now index row =
     (let rowNumber = dataStartRow + index;
          content = rowContent E row;
          noteUrl = extractUrlFromCell E rowNumber columns_noteUrl;
          threadGroupId = rowGroupId E row;
          status = rowStatus E row;
          scheduledAt = rowScheduledAt E row
      in if content = [] then None
         else if status = statuses Posted \<or> status = statuses Posting then None
         else
           (case scheduledAt of
              None \<Rightarrow> None
            | Some scheduledTime \<Rightarrow>
                (let earliestTime = now - toleranceMs;
                     latestTime = now + toleranceMs
                 in if scheduledTime > latestTime then None
                    else if scheduledTime < earliestTime then None
                    else Some \<lparr>rowNumber = rowNumber, content = content,
                                noteUrl = orNull noteUrl, scheduledAt = Some scheduledTime,
                                threadGroupId = orNull threadGroupId\<rparr>)))"

fun findLoop :: "env \<Rightarrow> int \<Rightarrow> nat \<Rightarrow> jsval list list \<Rightarrow> target option" where
  "findLoop E now index [] = None"
| "findLoop E now index (row # values) =
     (case selectRow E now index row of
        Some t \<Rightarrow> Some t
      | None \<Rightarrow> findLoop E now (index + 1) values)"

definition dataValues :: "sheet \<Rightarrow> nat \<Rightarrow> jsval list list" where
  "dataValues sh numColumns =
     getValues sh dataStartRow (getLastRow sh - dataStartRow + 1) numColumns"

definition findNextPublishableRow :: "env \<Rightarrow> sheet \<Rightarrow> int \<Rightarrow> target option" where
  "findNextPublishableRow E sh now =
     (if getLastRow sh < dataStartRow then None
      else findLoop E now 0 (dataValues sh columns_status))"

text \<open>
  Eligibility as the data model states it: content not empty, status neither posted nor
  posting, and the scheduled time defined and inside the closed window around \<open>now\<close>.
\<close>

definition eligible :: "env \<Rightarrow> int \<Rightarrow> jsval list \<Rightarrow> bool" where
  "eligible E now row \<longleftrightarrow>
     rowContent E row \<noteq> [] \<and>
     rowStatus E row \<noteq> ascii ''posted'' \<and>
     rowStatus E row \<noteq> ascii ''posting'' \<and>
     (case rowScheduledAt E row of
        None \<Rightarrow> False
      | Some t \<Rightarrow> now - 5 * 60 * 1000 \<le> t \<and> t \<le> now + 5 * 60 * 1000)"

text \<open>The object returned for the row at \<open>index\<close> of the data rows.\<close>

definition targetOf :: "env \<Rightarrow> nat \<Rightarrow> jsval list \<Rightarrow> target" where
  "targetOf E index row =
     \<lparr>rowNumber = dataStartRow + index, content = rowContent E row,
      noteUrl = orNull (extractUrlFromCell E (dataStartRow + index) columns_noteUrl),
      scheduledAt = rowScheduledAt E row,
      threadGroupId = orNull (rowGroupId E row)\<rparr>"

section \<open>The state of a run and the writes\<close>

datatype lockState = LockFree | LockHeldHere | LockHeldElsewhere

record world =
  cells :: sheet
  trace :: "event list"
  lock :: lockState

text \<open>\<^verbatim>\<open>sheet.getRange(r, c).getValue()\<close>, for a row and a column from 1 on.\<close>

definition getValue :: "sheet \<Rightarrow> nat \<Rightarrow> nat \<Rightarrow> jsval" where
  "getValue sh r c =
     (if r = 0 \<or> c = 0 \<or> length sh < r then JStr [] else cellAt (sh ! (r - 1)) (c - 1))"

text \<open>\<^verbatim>\<open>sheet.getRange(r, c).setValue(v)\<close>. A write below the last row makes the sheet longer,
  a write right of the stored cells makes the row longer. There is no row or column 0 (the
  script never asks for one), and the model writes nothing there.\<close>

definition writeCell :: "sheet \<Rightarrow> nat \<Rightarrow> nat \<Rightarrow> jsval \<Rightarrow> sheet" where
  "writeCell sh r c v =
     (if r = 0 \<or> c = 0 then sh
      else
        (let grown = sh @ replicate (r - length sh) [];
             row = grown ! (r - 1);
             wide = row @ replicate (c - length row) (JStr [])
         in grown[r - 1 := wide[c - 1 := v]]))"

definition setValue :: "world \<Rightarrow> nat \<Rightarrow> nat \<Rightarrow> jsval \<Rightarrow> world" where
  "setValue w r c v = w\<lparr>cells := writeCell (cells w) r c v, trace := trace w @ [SetValue r c v]\<rparr>"

definition setRowStatus :: "world \<Rightarrow> nat \<Rightarrow> jsstring \<Rightarrow> jsstring \<Rightarrow> world" where
  "setRowStatus w r st errorMessage =
     (let w1 = setValue w r columns_status (JStr st)
      in if st = statuses Failed \<and> errorMessage \<noteq> []
         then setValue w1 r columns_postedUrl (JStr errorMessage)
         else w1)"

definition sleep :: "world \<Rightarrow> nat \<Rightarrow> world" where
  "sleep w ms = w\<lparr>trace := trace w @ [Sleep ms]\<rparr>"

section \<open>Messages\<close>

text \<open>The texts of the script, as UTF-16 code units.\<close>

definition emptyContentMessage :: jsstring where
  "emptyContentMessage = [0x672C, 0x6587, 0x304C, 0x7A7A, 0x6B04]"

definition exceedMessage :: "nat \<Rightarrow> nat \<Rightarrow> jsstring" where
  "exceedMessage charCount maxLength =
     [0x6587, 0x5B57, 0x6570, 0x8D85, 0x904E] @ ascii '': '' @ digitsOf charCount @
     [0x6587, 0x5B57] @ ascii '' ('' @ [0x5236, 0x9650] @ digitsOf maxLength @ ascii '')''"

definition rowMessage :: "nat \<Rightarrow> jsstring \<Rightarrow> jsstring" where
  "rowMessage r message =
     [0x884C] @ ascii '' '' @ digitsOf r @ ascii '' '' @ [0x306E] @ message"

definition invalidPlanMessage :: "jsstring \<Rightarrow> jsstring" where
  "invalidPlanMessage planType =
     [0x7121, 0x52B9, 0x306A, 0x30D7, 0x30E9, 0x30F3, 0x8A2D, 0x5B9A] @ ascii '': '' @ planType"

text \<open>The response body that ends this message in the script is not part of the model.\<close>

definition missingIdMessage :: jsstring where
  "missingIdMessage =
     ascii ''API '' @ [0x30EC, 0x30B9, 0x30DD, 0x30F3, 0x30B9, 0x306B, 0x30C4, 0x30A4, 0x30FC, 0x30C8] @
     ascii ''ID'' @ [0x304C, 0x542B, 0x307E, 0x308C, 0x3066, 0x3044, 0x307E, 0x305B, 0x3093] @
     ascii '': ''"

definition credentialsMessage :: jsstring where
  "credentialsMessage =
     [0x30B9, 0x30AF, 0x30EA, 0x30D7, 0x30C8, 0x30D7, 0x30ED, 0x30D1, 0x30C6, 0x30A3] @
     ascii '' X_API_KEY / X_API_SECRET / X_ACCESS_TOKEN / X_ACCESS_TOKEN_SECRET '' @
     [0x3092, 0x8A2D, 0x5B9A, 0x3057, 0x3066, 0x304F, 0x3060, 0x3055, 0x3044, 0x3002]"

definition sheetMissingMessage :: jsstring where
  "sheetMissingMessage =
     [0x30B7, 0x30FC, 0x30C8] @ ascii '' '' @ [0x22] @ ascii ''sheet'' @ [0x22] @ ascii '' '' @
     [0x304C, 0x30A2, 0x30AF, 0x30C6, 0x30A3, 0x30D6, 0x306A, 0x30B9, 0x30D7, 0x30EC, 0x30C3,
      0x30C9, 0x30B7, 0x30FC, 0x30C8, 0x306B, 0x898B, 0x3064, 0x304B, 0x308A, 0x307E, 0x305B,
      0x3093, 0x3002]"

text \<open>\<^verbatim>\<open>String(error)\<close> of an \<^verbatim>\<open>Error\<close> with the given message.\<close>

fun errorString :: "jserror \<Rightarrow> jsstring" where
  "errorString (JsError m) = (if m = [] then ascii ''Error'' else ascii ''Error: '' @ m)"

section \<open>The plan and the posting client\<close>

text \<open>
  \<^verbatim>\<open>CONFIG.planPresets[planType]\<close>: the character limit of an own preset; \<open>Some None\<close> for a
  name that the object inherits from \<^verbatim>\<open>Object.prototype\<close> (a value with no
  \<^verbatim>\<open>characterLimit\<close>); \<open>None\<close> for any other name.
\<close>

definition inheritedNames :: "jsstring list" where
  "inheritedNames = map ascii
     [''constructor'', ''toString'', ''toLocaleString'', ''valueOf'', ''hasOwnProperty'',
      ''isPrototypeOf'', ''propertyIsEnumerable'', ''__proto__'', ''__defineGetter__'',
      ''__defineSetter__'', ''__lookupGetter__'', ''__lookupSetter__'']"

definition planPresets :: "jsstring \<Rightarrow> nat option option" where
  "planPresets planType =
     (if planType = ascii ''free'' then Some (Some 140)
      else if planType = ascii ''basic'' then Some (Some 25000)
      else if planType = ascii ''premium'' then Some (Some 25000)
      else if planType \<in> set inheritedNames then Some None
      else None)"

text \<open>\<^verbatim>\<open>getXPlanConfig()\<close>: the plan type and \<^verbatim>\<open>limits.characterLimit\<close> (\<open>None\<close> when undefined).\<close>

definition getXPlanConfig :: "env \<Rightarrow> jsstring \<times> nat option" where
  "getXPlanConfig E =
     (let planType = (case scriptProperty E XPlanType of
                        None \<Rightarrow> ascii ''free''
                      | Some savedPlan \<Rightarrow> if savedPlan = [] then ascii ''free'' else savedPlan);
          preset = (case planPresets planType of None \<Rightarrow> Some 140 | Some p \<Rightarrow> p)
      in (planType, preset))"

text \<open>\<^verbatim>\<open>postSingleTweet_\<close>: the reply parameter is sent when the reply target is truthy; an
  answer with no id is an error; the call and its outcome are recorded.\<close>

definition postSingleTweet ::
  "env \<Rightarrow> world \<Rightarrow> jsstring \<Rightarrow> jsstring option \<Rightarrow> jsstring list \<Rightarrow>
   (jserror + jsstring \<times> jsstring) \<times> world" where
  "postSingleTweet E w text replyToTweetId mediaIds =
     (let reply = (case replyToTweetId of None \<Rightarrow> None | Some r \<Rightarrow> if r = [] then None else Some r);
          outcome =
            (case fetchTweet E (trace w) text reply mediaIds of
               Inl e \<Rightarrow> Inl e
             | Inr tweetId \<Rightarrow>
                 if tweetId = [] then Inl (JsError missingIdMessage)
                 else Inr (tweetId, ascii ''https://x.com/i/web/status/'' @ tweetId))
      in (outcome, w\<lparr>trace := trace w @ [Tweet text replyToTweetId mediaIds outcome]\<rparr>))"

text \<open>The upload loop: a medium whose upload throws is dropped.\<close>

fun uploadAll :: "env \<Rightarrow> nat list \<Rightarrow> jsstring list" where
  "uploadAll E [] = []"
| "uploadAll E (b # bs) =
     (case uploadMediaToTwitter E b of
        Inl e \<Rightarrow> uploadAll E bs
      | Inr mediaId \<Rightarrow> mediaId # uploadAll E bs)"

section \<open>The single-post publisher\<close>

text \<open>The \<^verbatim>\<open>try\<close> block of \<^verbatim>\<open>postSingleRow_\<close> with its \<^verbatim>\<open>catch\<close>.\<close>

definition publishSingle :: "env \<Rightarrow> target \<Rightarrow> world \<Rightarrow> (jserror + unit) \<times> world" where
  "publishSingle E tgt w =
     (case getImagesFromCell E (rowNumber tgt) of
        Inl e \<Rightarrow> (Inl e, setRowStatus w (rowNumber tgt) (statuses Failed) (errorString e))
      | Inr imageBlobs \<Rightarrow>
          (let mediaIds = uploadAll E imageBlobs
           in case postSingleTweet E w (content tgt) None mediaIds of
                (Inl e, w2) \<Rightarrow>
                  (Inl e, setRowStatus w2 (rowNumber tgt) (statuses Failed) (errorString e))
              | (Inr (tweetId, tweetUrl), w2) \<Rightarrow>
                  (let w3 = setValue w2 (rowNumber tgt) columns_postedUrl (JStr tweetUrl);
                       w4 = setRowStatus w3 (rowNumber tgt) (statuses Posted) []
                   in case noteUrl tgt of
                        None \<Rightarrow> (Inr (), w4)
                      | Some n \<Rightarrow>
                          if n = [] then (Inr (), w4)
                          else (Inr (), snd (postSingleTweet E w4 n (Some tweetId) [])))))"

definition postSingleRow :: "env \<Rightarrow> target \<Rightarrow> world \<Rightarrow> (jserror + unit) \<times> world" where
  "postSingleRow E tgt w =
     (if content tgt = [] then
        (Inr (), setRowStatus w (rowNumber tgt) (statuses Failed) emptyContentMessage)
      else
        (let w1 = setRowStatus w (rowNumber tgt) (statuses Posting) []
         in if characterLimit_enabled then
              (case getXPlanConfig E of
                 (planType, None) \<Rightarrow> (Inl (JsError (invalidPlanMessage planType)), w1)
               | (planType, Some maxLength) \<Rightarrow>
                   (let charCount = countTwitterCharacters (content tgt)
                    in if charCount > maxLength then
                         (let message = exceedMessage charCount maxLength
                          in if characterLimit_skipOnExceed then
                               (Inr (), setRowStatus w1 (rowNumber tgt) (statuses Failed) message)
                             else
                               (Inl (JsError (rowMessage (rowNumber tgt) message)),
                                setRowStatus w1 (rowNumber tgt) (statuses Failed) message))
                       else publishSingle E tgt w1))
            else publishSingle E tgt w1))"

section \<open>The thread publisher\<close>

text \<open>One pass of the loop body of \<^verbatim>\<open>findThreadGroupRows_\<close>: the row it pushes, if any.
  The group id of a call from the coordinator is a string; \<open>None\<close> is \<^verbatim>\<open>null\<close>, which no
  row's id equals.\<close>

definition threadRowOf :: "env \<Rightarrow> jsstring option \<Rightarrow> nat \<Rightarrow> jsval list \<Rightarrow> target option" where
  "threadRowOf E groupId index row =
     (let rowNumber = dataStartRow + index;
          content = rowContent E row;
          status = rowStatus E row;
          rowThreadGroupId = rowGroupId E row
      in if Some rowThreadGroupId = groupId then
           (if status = statuses Posted \<or> status = statuses Posting then None
            else if content \<noteq> [] then
              Some \<lparr>rowNumber = rowNumber, content = content, noteUrl = None,
                    scheduledAt = None, threadGroupId = Some rowThreadGroupId\<rparr>
            else None)
         else None)"

fun threadScan :: "env \<Rightarrow> jsstring option \<Rightarrow> nat \<Rightarrow> jsval list list \<Rightarrow> target list" where
  "threadScan E groupId index [] = []"
| "threadScan E groupId index (row # values) =
     (case threadRowOf E groupId index row of
        None \<Rightarrow> threadScan E groupId (index + 1) values
      | Some t \<Rightarrow> t # threadScan E groupId (index + 1) values)"

text \<open>The range that \<^verbatim>\<open>findThreadGroupRows_\<close> reads is \<^verbatim>\<open>CONFIG.columns.threadGroupId\<close>
  columns wide.\<close>

definition findThreadGroupRows :: "env \<Rightarrow> sheet \<Rightarrow> jsstring option \<Rightarrow> target list" where
  "findThreadGroupRows E sh groupId =
     (if getLastRow sh < dataStartRow then []
      else threadScan E groupId 0 (dataValues sh columns_threadGroupId))"

text \<open>The \<^verbatim>\<open>try\<close> block of the thread loop with its \<^verbatim>\<open>catch\<close>, for the row at index \<open>i\<close> of
  \<open>n\<close>: the error thrown, or the new \<^verbatim>\<open>previousTweetId\<close>.\<close>

definition publishThreadRow ::
  "env \<Rightarrow> nat \<Rightarrow> nat \<Rightarrow> target \<Rightarrow> jsstring option \<Rightarrow> world \<Rightarrow>
   (jserror + jsstring option) \<times> world" where
  "publishThreadRow E i n row previousTweetId w =
     (let w0 = w\<lparr>trace := trace w @ [ThreadLog (i + 1) n (rowNumber row)]\<rparr>
      in case getImagesFromCell E (rowNumber row) of
           Inl e \<Rightarrow> (Inl e, setRowStatus w0 (rowNumber row) (statuses Failed) (errorString e))
         | Inr imageBlobs \<Rightarrow>
             (let mediaIds = uploadAll E imageBlobs
              in case postSingleTweet E w0 (content row) previousTweetId mediaIds of
                   (Inl e, w2) \<Rightarrow>
                     (Inl e, setRowStatus w2 (rowNumber row) (statuses Failed) (errorString e))
                 | (Inr (tweetId, tweetUrl), w2) \<Rightarrow>
                     (let w3 = setValue w2 (rowNumber row) columns_postedUrl (JStr tweetUrl);
                          w4 = setRowStatus w3 (rowNumber row) (statuses Posted) []
                      in (Inr (Some tweetId), if i + 1 < n then sleep w4 1000 else w4))))"

text \<open>One iteration of the thread loop.\<close>

definition threadStep ::
  "env \<Rightarrow> nat \<Rightarrow> nat \<Rightarrow> target \<Rightarrow> jsstring option \<Rightarrow> world \<Rightarrow>
   (jserror + jsstring option) \<times> world" where
  "threadStep E i n row previousTweetId w =
     (if content row = [] then
        (Inr previousTweetId,
         setRowStatus w (rowNumber row) (statuses Failed) emptyContentMessage)
      else
        (let w1 = setRowStatus w (rowNumber row) (statuses Posting) []
         in if characterLimit_enabled then
              (case getXPlanConfig E of
                 (planType, None) \<Rightarrow> (Inl (JsError (invalidPlanMessage planType)), w1)
               | (planType, Some maxLength) \<Rightarrow>
                   (let charCount = countTwitterCharacters (content row)
                    in if charCount > maxLength then
                         (let message = exceedMessage charCount maxLength;
                              w2 = setRowStatus w1 (rowNumber row) (statuses Failed) message
                          in if characterLimit_skipOnExceed then (Inr previousTweetId, w2)
                             else (Inl (JsError (rowMessage (rowNumber row) message)), w2))
                       else publishThreadRow E i n row previousTweetId w1))
            else publishThreadRow E i n row previousTweetId w1))"

text \<open>The thread loop from index \<open>i\<close> on, over the rows \<open>threadRows[i..]\<close>.\<close>

fun threadLoop ::
  "env \<Rightarrow> nat \<Rightarrow> nat \<Rightarrow> target list \<Rightarrow> jsstring option \<Rightarrow> world \<Rightarrow>
   (jserror + jsstring option) \<times> world" where
  "threadLoop E i n [] previousTweetId w = (Inr previousTweetId, w)"
| "threadLoop E i n (row # rows) previousTweetId w =
     (case threadStep E i n row previousTweetId w of
        (Inl e, w') \<Rightarrow> (Inl e, w')
      | (Inr p, w') \<Rightarrow> threadLoop E (i + 1) n rows p w')"

definition postThreadGroup :: "env \<Rightarrow> target \<Rightarrow> world \<Rightarrow> (jserror + unit) \<times> world" where
  "postThreadGroup E firstTarget w =
     (let threadRows = findThreadGroupRows E (cells w) (threadGroupId firstTarget)
      in if threadRows = [] then (Inr (), w)
         else
           (case threadLoop E 0 (length threadRows) threadRows None w of
              (Inl e, w') \<Rightarrow> (Inl e, w')
            | (Inr previousTweetId, w') \<Rightarrow>
                (case noteUrl firstTarget of
                   None \<Rightarrow> (Inr (), w')
                 | Some n \<Rightarrow>
                     (case previousTweetId of
                        None \<Rightarrow> (Inr (), w')
                      | Some p \<Rightarrow>
                          if n = [] \<or> p = [] then (Inr (), w')
                          else (Inr (), snd (postSingleTweet E (sleep w' 1000) n (Some p) []))))))"

section \<open>The run coordinator\<close>

definition tryLock :: "world \<Rightarrow> bool \<times> world" where
  "tryLock w = (if lock w = LockHeldElsewhere then (False, w) else (True, w\<lparr>lock := LockHeldHere\<rparr>))"

definition releaseLock :: "world \<Rightarrow> world" where
  "releaseLock w =
     w\<lparr>lock := (if lock w = LockHeldHere then LockFree else lock w),
       trace := trace w @ [ReleaseLock]\<rparr>"

definition falsy :: "jsstring option \<Rightarrow> bool" where
  "falsy v \<longleftrightarrow> v = None \<or> v = Some []"

text \<open>The \<^verbatim>\<open>try\<close> block of \<^verbatim>\<open>postNextScheduledToX\<close> once the lock is held.\<close>

definition runLocked :: "env \<Rightarrow> int \<Rightarrow> world \<Rightarrow> (jserror + unit) \<times> world" where
  "runLocked E now w =
     (if \<not> sheetFound E then (Inl (JsError sheetMissingMessage), w)
      else
        (case findNextPublishableRow E (cells w) now of
           None \<Rightarrow> (Inr (), w)
         | Some tgt \<Rightarrow>
             (let apiKey = scriptProperty E X_API_KEY;
                  apiSecret = scriptProperty E X_API_SECRET;
                  accessToken = scriptProperty E X_ACCESS_TOKEN;
                  accessTokenSecret = scriptProperty E X_ACCESS_TOKEN_SECRET
              in if falsy apiKey \<or> falsy apiSecret \<or> falsy accessToken \<or> falsy accessTokenSecret
                 then (Inl (JsError credentialsMessage), w)
                 else if \<not> falsy (threadGroupId tgt) then postThreadGroup E tgt w
                 else postSingleRow E tgt w)))"

text \<open>\<^verbatim>\<open>postNextScheduledToX\<close>: the \<^verbatim>\<open>catch\<close> logs and throws the error again, the
  \<^verbatim>\<open>finally\<close> releases the lock.\<close>

definition postNextScheduledToX :: "env \<Rightarrow> int \<Rightarrow> world \<Rightarrow> (jserror + unit) \<times> world" where
  "postNextScheduledToX E now w =
     (case tryLock w of
        (hasLock, w1) \<Rightarrow>
          (case (if \<not> hasLock then (Inr (), w1) else runLocked E now w1) of
             (r, w2) \<Rightarrow> (r, releaseLock w2)))"

section \<open>Reading a trace\<close>

text \<open>The row that an event is about, if any.\<close>

fun eventRow :: "event \<Rightarrow> nat option" where
  "eventRow (SetValue r c v) = Some r"
| "eventRow (ThreadLog i n r) = Some r"
| "eventRow (Tweet t rp m out) = None"
| "eventRow (Sleep ms) = None"
| "eventRow ReleaseLock = None"

text \<open>The id returned by the most recent successful call of \<^verbatim>\<open>postSingleTweet_\<close> among
  the events, or \<open>p\<close> when none succeeded.\<close>

fun lastId :: "jsstring option \<Rightarrow> event list \<Rightarrow> jsstring option" where
  "lastId p [] = p"
| "lastId p (Tweet t rp m (Inr r) # evs) = lastId (Some (fst r)) evs"
| "lastId p (ev # evs) = lastId p evs"

text \<open>The events between two states of a run.\<close>

definition newEvents :: "world \<Rightarrow> world \<Rightarrow> event list" where
  "newEvents w w' = drop (length (trace w)) (trace w')"

section \<open>An environment and sheets for the examples\<close>

text \<open>
  The examples run in the time zone UTC+9, with no plan saved, the four credentials set, no
  media, and a posting API that answers every call with a fresh id. The example sheet has a
  header row and five data rows, all dated 3 November 2026 (serial 46328 from the base
  date): row 2 already posted, row 3 without text, row 4 due at 9:36, row 5 due at 9:35
  (the minute typed as text), row 6 due at 9:30. The time 9:30 of that day is
  1793665800000.
\<close>

definition exampleEnv :: env where
  "exampleEnv =
     \<lparr>tzOffsetMs = 32400000,
      numberToString = (\<lambda>q. ascii ''NaN''),
      dateToString = (\<lambda>t. ascii ''Invalid Date''),
      stringToNumber = (\<lambda>s. None),
      dateParse = (\<lambda>s. None),
      sheetFound = True,
      extractUrlFromCell = (\<lambda>r c. []),
      scriptProperty = (\<lambda>k. if k = XPlanType then None else Some (ascii ''secret'')),
      getImagesFromCell = (\<lambda>r. Inr []),
      uploadMediaToTwitter = (\<lambda>b. Inl (JsError [])),
      fetchTweet = (\<lambda>evs text reply media. Inr (ascii ''id'' @ digitsOf (length evs)))\<rparr>"

definition exampleRow ::
  "string \<Rightarrow> jsval \<Rightarrow> jsval \<Rightarrow> jsval \<Rightarrow> string \<Rightarrow> string \<Rightarrow> jsval list" where
  "exampleRow text day hour minute groupId st =
     [JStr (ascii text), JStr [], JStr [], JStr [], day, hour, minute, JStr [],
      JStr (ascii groupId), JStr (ascii st)]"

definition exampleSheet :: sheet where
  "exampleSheet =
     [[JStr (ascii ''text'')],
      exampleRow ''done'' (JNum 46328) (JNum 9) (JNum 30) [] ''Posted'',
      exampleRow [] (JNum 46328) (JNum 9) (JNum 30) [] [],
      exampleRow ''late'' (JNum 46328) (JNum 9) (JNum 36) [] [],
      exampleRow ''hi'' (JNum 46328) (JNum 9) (JStr (ascii '' 35 '')) [] ''pending'',
      exampleRow ''next'' (JNum 46328) (JNum 9) (JNum 30) [] []]"

text \<open>
  Sheets with one thread group \<open>g\<close>, all rows due at 9:30: three pending rows; a first row of
  seven links, which counts 7 * 23 + 6 = 167 characters, before a short one; a row without text between two rows with text; and a
  row already posted before a pending one. A run starts with an empty trace and a free
  lock. \<open>repliesFailEnv\<close> is the example environment with a posting API that accepts a
  top-level post and fails every reply.
\<close>

definition threadSheet :: sheet where
  "threadSheet =
     [[JStr (ascii ''text'')],
      exampleRow ''one'' (JNum 46328) (JNum 9) (JNum 30) ''g'' ''pending'',
      exampleRow ''two'' (JNum 46328) (JNum 9) (JNum 30) ''g'' ''pending'',
      exampleRow ''three'' (JNum 46328) (JNum 9) (JNum 30) ''g'' ''pending'']"

definition sevenLinks :: string where
  "sevenLinks = ''http://a http://b http://c http://d http://e http://f http://g''"

definition longFirstSheet :: sheet where
  "longFirstSheet =
     [[JStr (ascii ''text'')],
      exampleRow sevenLinks (JNum 46328) (JNum 9) (JNum 30) ''g'' ''pending'',
      exampleRow ''b'' (JNum 46328) (JNum 9) (JNum 30) ''g'' ''pending'']"

definition gapSheet :: sheet where
  "gapSheet =
     [[JStr (ascii ''text'')],
      exampleRow ''one'' (JNum 46328) (JNum 9) (JNum 30) ''g'' ''pending'',
      exampleRow [] (JNum 46328) (JNum 9) (JNum 30) ''g'' ''pending'',
      exampleRow ''three'' (JNum 46328) (JNum 9) (JNum 30) ''g'' ''pending'']"

definition repostSheet :: sheet where
  "repostSheet =
     [[JStr (ascii ''text'')],
      exampleRow ''one'' (JNum 46328) (JNum 9) (JNum 30) ''g'' ''posted'',
      exampleRow ''two'' (JNum 46328) (JNum 9) (JNum 30) ''g'' ''pending'']"

definition startOf :: "sheet \<Rightarrow> world" where
  "startOf sh = \<lparr>cells = sh, trace = [], lock = LockFree\<rparr>"

definition threadRow :: "nat \<Rightarrow> string \<Rightarrow> target" where
  "threadRow r text =
     \<lparr>rowNumber = r, content = ascii text, noteUrl = None, scheduledAt = None,
      threadGroupId = Some (ascii ''g'')\<rparr>"

definition repliesFailEnv :: env where
  "repliesFailEnv =
     exampleEnv\<lparr>fetchTweet :=
       (\<lambda>evs text reply media.
          case reply of
            None \<Rightarrow> Inr (ascii ''id1'')
          | Some r \<Rightarrow> Inl (JsError (ascii ''X API 503'')))\<rparr>"

text \<open>The run of the thread publisher on the three pending rows when replies fail: the
  state after the pass for row 2, and the state after the pass for row 3.\<close>

definition afterFirstPass :: world where
  "afterFirstPass =
     snd (threadLoop repliesFailEnv 0 3 [threadRow 2 ''one''] None (startOf threadSheet))"

definition afterSecondPass :: world where
  "afterSecondPass =
     snd (threadStep repliesFailEnv 1 3 (threadRow 3 ''two'') (Some (ascii ''id1''))
            afterFirstPass)"

text \<open>The same two states when every call succeeds.\<close>

definition okFirstPass :: world where
  "okFirstPass =
     snd (threadLoop exampleEnv 0 3 [threadRow 2 ''one''] None (startOf threadSheet))"

definition okSecondPass :: world where
  "okSecondPass =
     snd (threadStep exampleEnv 1 3 (threadRow 3 ''two'') (Some (ascii ''id2'')) okFirstPass)"

text \<open>The state after the pass of the thread loop for the row of seven links.\<close>

definition afterSkip :: world where
  "afterSkip =
     snd (threadStep exampleEnv 0 2 (threadRow 2 sevenLinks) None (startOf longFirstSheet))"

text \<open>The example environment with no script property set.\<close>

definition noCredentialsEnv :: env where
  "noCredentialsEnv = exampleEnv\<lparr>scriptProperty := (\<lambda>k. None)\<rparr>"

section \<open>The selector returns the first eligible row\<close>

lemma selectRow_eligible:
  "selectRow E now index row =
     (if eligible E now row then Some (targetOf E index row) else None)"
  by (auto simp: selectRow_def eligible_def targetOf_def Let_def toleranceMs_def
        toleranceMinutes_def split: option.splits)

lemma dataValues_rows:
  "length (dataValues sh n) = length sh - 1"
  "i < length sh - 1 \<Longrightarrow> dataValues sh n ! i = map (cellAt (sh ! (i + 1))) [0..<n]"
  by (simp_all add: dataValues_def getValues_def getLastRow_def dataStartRow_def)

lemma findLoop_Some:
  "findLoop E now index vs = Some t \<longleftrightarrow>
     (\<exists>i < length vs. eligible E now (vs ! i) \<and> (\<forall>j < i. \<not> eligible E now (vs ! j)) \<and>
        t = targetOf E (index + i) (vs ! i))"
proof (induction vs arbitrary: index)
  case Nil
  show ?case by simp
next
  case (Cons row vs)
  show ?case
  proof (cases "eligible E now row")
    case True
    then show ?thesis
      apply (simp add: selectRow_eligible)
      apply (rule iffI)
       apply (rule exI [of _ 0])
       apply simp
      apply (erule exE)
      subgoal for i by (cases i) auto
      done
  next
    case False
    then show ?thesis
      apply (simp add: selectRow_eligible Cons.IH)
      apply (rule iffI)
       apply (erule exE)
      subgoal for i
        apply (rule exI [of _ "Suc i"])
        apply (auto simp: less_Suc_eq_0_disj)
        done
      apply (erule exE)
      subgoal for i
        apply (cases i)
         apply simp
        subgoal for k
          apply (rule exI [of _ k])
          apply (auto simp: less_Suc_eq_0_disj)
          done
        done
      done
  qed
qed

lemma findLoop_None:
  "findLoop E now index vs = None \<longleftrightarrow> (\<forall>i < length vs. \<not> eligible E now (vs ! i))"
proof (induction vs arbitrary: index)
  case Nil
  show ?case by simp
next
  case (Cons row vs)
  show ?case
    by (simp add: selectRow_eligible Cons.IH All_less_Suc2 del: All_less_Suc)
qed
lemma findNext_findLoop:
  "findNextPublishableRow E sh now = findLoop E now 0 (dataValues sh columns_status)"
  by (simp add: findNextPublishableRow_def dataValues_def getValues_def getLastRow_def
        dataStartRow_def)

text \<open>
  Claim C1. For every environment, sheet and time \<open>now\<close>, the selector returns nothing iff
  no data row is eligible, and returns a row iff that row is the first eligible one in
  store order (every data row before it is not eligible), with the fields resolved from
  that row. A row that passes the content and status checks and is scheduled exactly at
  \<open>now\<close> plus the tolerance is returned by the loop body; one millisecond later it is
  skipped.
\<close>

theorem findNextPublishableRow_first_eligible:
  "(findNextPublishableRow E sh now = None \<longleftrightarrow>
      (\<forall>i < length (dataValues sh columns_status).
          \<not> eligible E now (dataValues sh columns_status ! i))) \<and>
   (\<forall>t. findNextPublishableRow E sh now = Some t \<longleftrightarrow>
      (\<exists>i < length (dataValues sh columns_status).
          eligible E now (dataValues sh columns_status ! i) \<and>
          (\<forall>j < i. \<not> eligible E now (dataValues sh columns_status ! j)) \<and>
          t = targetOf E i (dataValues sh columns_status ! i))) \<and>
   (\<forall>i row. rowContent E row \<noteq> [] \<and> rowStatus E row \<noteq> ascii ''posted'' \<and>
        rowStatus E row \<noteq> ascii ''posting'' \<and>
        rowScheduledAt E row = Some (now + toleranceMs) \<longrightarrow>
        selectRow E now i row = Some (targetOf E i row)) \<and>
   (\<forall>i row. rowScheduledAt E row = Some (now + toleranceMs + 1) \<longrightarrow>
        selectRow E now i row = None)"
proof (intro conjI allI impI)
  show "findNextPublishableRow E sh now = None \<longleftrightarrow>
      (\<forall>i < length (dataValues sh columns_status).
          \<not> eligible E now (dataValues sh columns_status ! i))"
    by (simp only: findNext_findLoop findLoop_None)
next
  fix t
  show "findNextPublishableRow E sh now = Some t \<longleftrightarrow>
      (\<exists>i < length (dataValues sh columns_status).
          eligible E now (dataValues sh columns_status ! i) \<and>
          (\<forall>j < i. \<not> eligible E now (dataValues sh columns_status ! j)) \<and>
          t = targetOf E i (dataValues sh columns_status ! i))"
    by (simp add: findNext_findLoop findLoop_Some)
next
  fix i row
  assume "rowContent E row \<noteq> [] \<and> rowStatus E row \<noteq> ascii ''posted'' \<and>
        rowStatus E row \<noteq> ascii ''posting'' \<and>
        rowScheduledAt E row = Some (now + toleranceMs)"
  then show "selectRow E now i row = Some (targetOf E i row)"
    by (simp add: selectRow_eligible eligible_def toleranceMs_def toleranceMinutes_def)
next
  fix i row
  assume "rowScheduledAt E row = Some (now + toleranceMs + 1)"
  then show "selectRow E now i row = None"
    by (simp add: selectRow_eligible eligible_def toleranceMs_def toleranceMinutes_def)
qed


text \<open>On the example sheet at 9:30 the selector returns row 5: rows 2 to 4 are not eligible
  (posted, no text, six minutes ahead), and row 5, five minutes ahead, is. The same row is
  still returned five minutes after its time and skipped one millisecond before 9:30.\<close>

theorem findNextPublishableRow_first_eligible_witness:
  "findNextPublishableRow exampleEnv exampleSheet 1793665800000 =
     Some \<lparr>rowNumber = 5, content = ascii ''hi'', noteUrl = None,
           scheduledAt = Some 1793666100000, threadGroupId = None\<rparr> \<and>
   (\<exists>i < length (dataValues exampleSheet columns_status).
       eligible exampleEnv 1793665800000 (dataValues exampleSheet columns_status ! i) \<and>
       (\<forall>j < i. \<not> eligible exampleEnv 1793665800000
                    (dataValues exampleSheet columns_status ! j)) \<and>
       \<lparr>rowNumber = 5, content = ascii ''hi'', noteUrl = None,
        scheduledAt = Some 1793666100000, threadGroupId = None\<rparr> =
         targetOf exampleEnv i (dataValues exampleSheet columns_status ! i)) \<and>
   rowScheduledAt exampleEnv (exampleSheet ! 4) = Some (1793665800000 + toleranceMs) \<and>
   selectRow exampleEnv 1793665800000 3 (exampleSheet ! 4) =
     Some (targetOf exampleEnv 3 (exampleSheet ! 4)) \<and>
   selectRow exampleEnv 1793665799999 3 (exampleSheet ! 4) = None"
proof -
  have found: "findNextPublishableRow exampleEnv exampleSheet 1793665800000 =
     Some \<lparr>rowNumber = 5, content = ascii ''hi'', noteUrl = None,
           scheduledAt = Some 1793666100000, threadGroupId = None\<rparr>"
    by code_simp
  have c: "rowContent exampleEnv (exampleSheet ! 4) \<noteq> []"
    by code_simp
  have s1: "rowStatus exampleEnv (exampleSheet ! 4) \<noteq> ascii ''posted''"
    by code_simp
  have s2: "rowStatus exampleEnv (exampleSheet ! 4) \<noteq> ascii ''posting''"
    by code_simp
  have t1: "rowScheduledAt exampleEnv (exampleSheet ! 4) = Some (1793665800000 + toleranceMs)"
    by code_simp
  have t2: "rowScheduledAt exampleEnv (exampleSheet ! 4) = Some (1793665799999 + toleranceMs + 1)"
    by code_simp
  note first = findNextPublishableRow_first_eligible
    [of exampleEnv exampleSheet 1793665800000, THEN conjunct2, THEN conjunct1, THEN spec,
     THEN iffD1, OF found]
  note edge = findNextPublishableRow_first_eligible
    [of exampleEnv exampleSheet 1793665800000, THEN conjunct2, THEN conjunct2,
     THEN conjunct1, THEN spec, THEN spec, THEN mp,
     OF conjI [OF c conjI [OF s1 conjI [OF s2 t1]]]]
  note past = findNextPublishableRow_first_eligible
    [of exampleEnv exampleSheet 1793665799999, THEN conjunct2, THEN conjunct2,
     THEN conjunct2, THEN spec, THEN spec, THEN mp, OF t2]
  show ?thesis
    by (intro conjI found first t1 edge past)
qed

section \<open>What the character counter counts\<close>

lemma removeUrls_no_match: "urlMatches s = [] \<Longrightarrow> removeUrls s = s"
  by (induction s rule: urlMatches.induct) (auto split: option.splits)

lemma countTwitterCharacters_sum:
  "countTwitterCharacters s =
     length (arrayFrom (removeUrls s)) + length (urlMatches s) * 23"
  by (cases "s = []") (auto simp: countTwitterCharacters_def Let_def urlLength_def removeUrls_no_match)

lemma run_split:
  assumes "\<forall>c \<in> set run. \<not> isWhiteSpace c" and "rest = [] \<or> isWhiteSpace (hd rest)"
  shows "takeWhile (\<lambda>c. \<not> isWhiteSpace c) (run @ rest) = run"
    and "dropWhile (\<lambda>c. \<not> isWhiteSpace c) (run @ rest) = rest"
  using assms by (cases rest; simp add: takeWhile_append2 dropWhile_append2)+

lemma matchUrlAt_https:
  assumes "run \<noteq> []" "\<forall>c \<in> set run. \<not> isWhiteSpace c" "rest = [] \<or> isWhiteSpace (hd rest)"
  shows "matchUrlAt (ascii ''https://'' @ run @ rest) = Some (ascii ''https://'' @ run, rest)"
  using assms(1) run_split [OF assms(2,3)]
  by (simp add: matchUrlAt_def ascii_def canonicalize_def Let_def take_Cons')

lemma matchUrlAt_http:
  assumes "run \<noteq> []" "\<forall>c \<in> set run. \<not> isWhiteSpace c" "rest = [] \<or> isWhiteSpace (hd rest)"
  shows "matchUrlAt (ascii ''http://'' @ run @ rest) = Some (ascii ''http://'' @ run, rest)"
  using assms(1) run_split [OF assms(2,3)]
  by (simp add: matchUrlAt_def ascii_def canonicalize_def Let_def take_Cons')

lemma count_https:
  assumes "run \<noteq> []" "\<forall>c \<in> set run. \<not> isWhiteSpace c" "rest = [] \<or> isWhiteSpace (hd rest)"
  shows "countTwitterCharacters (ascii ''https://'' @ run @ rest) = 23 + countTwitterCharacters rest"
proof -
  have "ascii ''https://'' @ run @ rest = 0x68 # (ascii ''ttps://'' @ run @ rest)"
    by (simp add: ascii_def)
  then show ?thesis
    using matchUrlAt_https [OF assms]
    by (simp add: countTwitterCharacters_sum)
qed

lemma count_http:
  assumes "run \<noteq> []" "\<forall>c \<in> set run. \<not> isWhiteSpace c" "rest = [] \<or> isWhiteSpace (hd rest)"
  shows "countTwitterCharacters (ascii ''http://'' @ run @ rest) = 23 + countTwitterCharacters rest"
proof -
  have "ascii ''http://'' @ run @ rest = 0x68 # (ascii ''ttp://'' @ run @ rest)"
    by (simp add: ascii_def)
  then show ?thesis
    using matchUrlAt_http [OF assms]
    by (simp add: countTwitterCharacters_sum)
qed

lemma count_plain:
  assumes "canonicalize c \<noteq> 0x48"
  shows "urlMatches (c # s) = urlMatches s" "removeUrls (c # s) = c # removeUrls s"
proof -
  have "canonicalize 0x68 = 0x48"
    by (simp add: canonicalize_def)
  with assms show "urlMatches (c # s) = urlMatches s" "removeUrls (c # s) = c # removeUrls s"
    by (simp_all add: matchUrlAt_def ascii_def)
qed


text \<open>
  Claim C4, as amended. The count is the number of code points of the text without its URL
  matches plus 23 for each match. A URL (either scheme, then a run without white space that
  ends at white space or at the end of the text) at the start of a text weighs 23 and the
  rest of the text is counted after it; a text with no match counts its code points. The
  empty text counts 0, \<open>a\<close> counts 1, the URL alone 23, a surrogate pair 1, and
  \<open>a https://x.co/abc b\<close> counts 4 + 23: the four remaining characters are the two letters
  and the two spaces around the URL.
\<close>

theorem countTwitterCharacters_weights:
  "countTwitterCharacters s = length (arrayFrom (removeUrls s)) + length (urlMatches s) * 23 \<and>
   (\<forall>run rest. run \<noteq> [] \<and> (\<forall>c \<in> set run. \<not> isWhiteSpace c) \<and>
       (rest = [] \<or> isWhiteSpace (hd rest)) \<longrightarrow>
       countTwitterCharacters (ascii ''https://'' @ run @ rest) =
         23 + countTwitterCharacters rest \<and>
       countTwitterCharacters (ascii ''http://'' @ run @ rest) =
         23 + countTwitterCharacters rest) \<and>
   (urlMatches s = [] \<longrightarrow> countTwitterCharacters s = length (arrayFrom s)) \<and>
   countTwitterCharacters [] = 0 \<and>
   countTwitterCharacters (ascii ''a'') = 1 \<and>
   countTwitterCharacters (ascii ''https://x.co/abc'') = 23 \<and>
   countTwitterCharacters (ascii ''a https://x.co/abc b'') = 4 + 23 \<and>
   countTwitterCharacters [0xD83D, 0xDE00] = 1"
proof (intro conjI allI impI)
  show "countTwitterCharacters s =
      length (arrayFrom (removeUrls s)) + length (urlMatches s) * 23"
    by (rule countTwitterCharacters_sum)
next
  fix run rest :: jsstring
  assume a: "run \<noteq> [] \<and> (\<forall>c \<in> set run. \<not> isWhiteSpace c) \<and>
       (rest = [] \<or> isWhiteSpace (hd rest))"
  show "countTwitterCharacters (ascii ''https://'' @ run @ rest) =
         23 + countTwitterCharacters rest"
    using a by (intro count_https) simp_all
  show "countTwitterCharacters (ascii ''http://'' @ run @ rest) =
         23 + countTwitterCharacters rest"
    using a by (intro count_http) simp_all
next
  assume "urlMatches s = []"
  then show "countTwitterCharacters s = length (arrayFrom s)"
    by (simp add: countTwitterCharacters_sum removeUrls_no_match)
next
  show "countTwitterCharacters [] = 0"
    by (simp add: countTwitterCharacters_def)
  show "countTwitterCharacters (ascii ''a'') = 1"
    by code_simp
  show "countTwitterCharacters (ascii ''https://x.co/abc'') = 23"
    by code_simp
  show "countTwitterCharacters (ascii ''a https://x.co/abc b'') = 4 + 23"
    by code_simp
  show "countTwitterCharacters [0xD83D, 0xDE00] = 1"
    by code_simp
qed

text \<open>The URL \<open>https://x.co/abc\<close> before \<open> b\<close> weighs 23 and the two characters after it
  count 2; the text \<open>a b\<close> has no match and counts its three code points.\<close>

theorem countTwitterCharacters_weights_witness:
  "ascii ''x.co/abc'' \<noteq> [] \<and> list_all (\<lambda>c. \<not> isWhiteSpace c) (ascii ''x.co/abc'') \<and>
   isWhiteSpace (hd (ascii '' b'')) \<and>
   countTwitterCharacters (ascii ''https://'' @ ascii ''x.co/abc'' @ ascii '' b'') =
     23 + countTwitterCharacters (ascii '' b'') \<and>
   countTwitterCharacters (ascii '' b'') = 2 \<and>
   urlMatches (ascii ''a b'') = [] \<and>
   countTwitterCharacters (ascii ''a b'') = length (arrayFrom (ascii ''a b''))"
proof -
  have r: "ascii ''x.co/abc'' \<noteq> []" "list_all (\<lambda>c. \<not> isWhiteSpace c) (ascii ''x.co/abc'')"
    "isWhiteSpace (hd (ascii '' b''))" "countTwitterCharacters (ascii '' b'') = 2"
    "urlMatches (ascii ''a b'') = []"
    by code_simp+
  have pre: "ascii ''x.co/abc'' \<noteq> [] \<and> (\<forall>c \<in> set (ascii ''x.co/abc''). \<not> isWhiteSpace c) \<and>
       (ascii '' b'' = [] \<or> isWhiteSpace (hd (ascii '' b'')))"
    using r(1-3) by (simp add: list_all_iff)
  note url = countTwitterCharacters_weights [of "ascii ''a b''", THEN conjunct2, THEN conjunct1,
      THEN spec, THEN spec, THEN mp, OF pre, THEN conjunct1]
  note plain = countTwitterCharacters_weights [of "ascii ''a b''", THEN conjunct2,
      THEN conjunct2, THEN conjunct1, THEN mp, OF r(5)]
  show ?thesis
    by (intro conjI r url plain)
qed

text \<open>The value 3 + 23 that the claim gives for \<open>a https://x.co/abc b\<close> is not the count:
  the count is 27.\<close>

theorem countTwitterCharacters_spaces_counterexample:
  "countTwitterCharacters (ascii ''a https://x.co/abc b'') = 27 \<and>
   countTwitterCharacters (ascii ''a https://x.co/abc b'') \<noteq> 3 + 23"
  by code_simp

section \<open>The hour and minute cells\<close>



































section \<open>Writes, frames and the trace\<close>

lemma getValue_writeCell:
  "getValue (writeCell sh r c v) r' c' =
     (if r' = r \<and> c' = c \<and> 0 < r \<and> 0 < c then v else getValue sh r' c')"
proof (cases "r = 0 \<or> c = 0")
  case True
  then show ?thesis by (auto simp: writeCell_def)
next
  case False
  then have rc: "0 < r" "0 < c" by auto
  define grown where "grown = sh @ replicate (r - length sh) []"
  define row where "row = grown ! (r - 1)"
  define wide where "wide = row @ replicate (c - length row) (JStr [])"
  have w: "writeCell sh r c v = grown[r - 1 := wide[c - 1 := v]]"
    using False by (simp add: writeCell_def Let_def grown_def row_def wide_def)
  have lg: "length grown = max (length sh) r"
    by (auto simp: grown_def)
  have gv: "getValue grown r'' c'' = getValue sh r'' c''" for r'' c''
    by (auto simp: getValue_def grown_def nth_append cellAt_def)
  have cw: "cellAt wide j = cellAt row j" for j
    by (auto simp: cellAt_def wide_def nth_append)
  have lw: "c \<le> length wide"
    by (auto simp: wide_def)
  show ?thesis
  proof (cases "r' = r")
    case True
    have "getValue (writeCell sh r c v) r c' = (if c' = 0 then JStr [] else cellAt (wide[c - 1 := v]) (c' - 1))"
      using rc lg by (simp add: w getValue_def)
    also have "\<dots> = (if c' = c then v else getValue grown r c')"
      using rc lg lw cw [of "c' - 1"]
      by (auto simp: getValue_def cellAt_def row_def nth_list_update)
    finally show ?thesis
      using True rc gv by simp
  next
    case False
    then have "getValue (writeCell sh r c v) r' c' = getValue grown r' c'"
      using rc lg by (auto simp: w getValue_def nth_list_update)
    then show ?thesis
      using False gv by simp
  qed
qed

lemma setValue_simps [simp]:
  "lock (setValue w r c v) = lock w"
  "trace (setValue w r c v) = trace w @ [SetValue r c v]"
  "cells (setValue w r c v) = writeCell (cells w) r c v"
  by (simp_all add: setValue_def)

lemma sleep_simps [simp]:
  "lock (sleep w ms) = lock w"
  "trace (sleep w ms) = trace w @ [Sleep ms]"
  "cells (sleep w ms) = cells w"
  by (simp_all add: sleep_def)

lemma setRowStatus_simps [simp]:
  "lock (setRowStatus w r st msg) = lock w"
  "trace (setRowStatus w r st msg) =
     trace w @ SetValue r columns_status (JStr st) #
       (if st = statuses Failed \<and> msg \<noteq> [] then [SetValue r columns_postedUrl (JStr msg)] else [])"
  "cells (setRowStatus w r st msg) =
     (if st = statuses Failed \<and> msg \<noteq> []
      then writeCell (writeCell (cells w) r columns_status (JStr st)) r columns_postedUrl (JStr msg)
      else writeCell (cells w) r columns_status (JStr st))"
  by (simp_all add: setRowStatus_def Let_def)

lemma postSingleTweet_simps [simp]:
  "lock (snd (postSingleTweet E w t rp m)) = lock w"
  "cells (snd (postSingleTweet E w t rp m)) = cells w"
  "trace (snd (postSingleTweet E w t rp m)) =
     trace w @ [Tweet t rp m (fst (postSingleTweet E w t rp m))]"
  by (simp_all add: postSingleTweet_def Let_def)

lemma errorString_nonempty [simp]: "errorString e \<noteq> []"
  by (cases e) (simp add: ascii_def)

lemma statuses_distinct [simp]:
  "statuses Posting \<noteq> statuses Failed" "statuses Posted \<noteq> statuses Failed"
  by (simp_all add: ascii_def)

lemma lastId_append: "lastId p (xs @ ys) = lastId (lastId p xs) ys"
  by (induction p xs rule: lastId.induct) simp_all

lemma newEvents_append [simp]: "trace w' = trace w @ evs \<Longrightarrow> newEvents w w' = evs"
  by (simp add: newEvents_def)

text \<open>What one pass of the thread loop does, case by case.\<close>

lemma publishThreadRow_cases:
  assumes "publishThreadRow E i n row prev w = (r, w')"
  obtains
    (images) e where "getImagesFromCell E (rowNumber row) = Inl e" "r = Inl e"
      "trace w' = trace w @
         [ThreadLog (i + 1) n (rowNumber row),
          SetValue (rowNumber row) columns_status (JStr (statuses Failed)),
          SetValue (rowNumber row) columns_postedUrl (JStr (errorString e))]"
      "cells w' = writeCell (writeCell (cells w) (rowNumber row) columns_status (JStr (statuses Failed)))
          (rowNumber row) columns_postedUrl (JStr (errorString e))"
      "lock w' = lock w"
  | (failed) e blobs where "getImagesFromCell E (rowNumber row) = Inr blobs" "r = Inl e"
      "trace w' = trace w @
         [ThreadLog (i + 1) n (rowNumber row),
          Tweet (content row) prev (uploadAll E blobs) (Inl e),
          SetValue (rowNumber row) columns_status (JStr (statuses Failed)),
          SetValue (rowNumber row) columns_postedUrl (JStr (errorString e))]"
      "cells w' = writeCell (writeCell (cells w) (rowNumber row) columns_status (JStr (statuses Failed)))
          (rowNumber row) columns_postedUrl (JStr (errorString e))"
      "lock w' = lock w"
  | (posted) tweetId tweetUrl blobs where "getImagesFromCell E (rowNumber row) = Inr blobs"
      "r = Inr (Some tweetId)"
      "trace w' = trace w @
         [ThreadLog (i + 1) n (rowNumber row),
          Tweet (content row) prev (uploadAll E blobs) (Inr (tweetId, tweetUrl)),
          SetValue (rowNumber row) columns_postedUrl (JStr tweetUrl),
          SetValue (rowNumber row) columns_status (JStr (statuses Posted))] @
         (if i + 1 < n then [Sleep 1000] else [])"
      "cells w' = writeCell (writeCell (cells w) (rowNumber row) columns_postedUrl (JStr tweetUrl))
          (rowNumber row) columns_status (JStr (statuses Posted))"
      "lock w' = lock w"
proof (cases "getImagesFromCell E (rowNumber row)")
  case (Inl e)
  with assms show ?thesis
    by (intro images [of e]) (auto simp: publishThreadRow_def Let_def)
next
  case (Inr blobs)
  let ?w0 = "w\<lparr>trace := trace w @ [ThreadLog (i + 1) n (rowNumber row)]\<rparr>"
  obtain out w2 where p: "postSingleTweet E ?w0 (content row) prev (uploadAll E blobs) = (out, w2)"
    by (cases "postSingleTweet E ?w0 (content row) prev (uploadAll E blobs)")
  then have w2: "w2 = ?w0\<lparr>trace := trace ?w0 @ [Tweet (content row) prev (uploadAll E blobs) out]\<rparr>"
    by (auto simp: postSingleTweet_def Let_def)
  show ?thesis
  proof (cases out)
    case (Inl e)
    with assms Inr p w2 show ?thesis
      by (intro failed [of blobs e]) (auto simp: publishThreadRow_def Let_def)
  next
    case (Inr res)
    obtain tweetId tweetUrl where res: "res = (tweetId, tweetUrl)"
      by (cases res)
    with assms \<open>getImagesFromCell E (rowNumber row) = Inr blobs\<close> Inr p w2 show ?thesis
      by (intro posted [of blobs tweetId tweetUrl]) (auto simp: publishThreadRow_def Let_def)
  qed
qed

lemma messages_nonempty [simp]:
  "emptyContentMessage \<noteq> []" "exceedMessage a b \<noteq> []"
  by (simp_all add: emptyContentMessage_def exceedMessage_def)

lemma threadStep_cases:
  assumes "threadStep E i n row prev w = (r, w')"
  obtains
    (empty) "content row = []" "r = Inr prev"
      "trace w' = trace w @
         [SetValue (rowNumber row) columns_status (JStr (statuses Failed)),
          SetValue (rowNumber row) columns_postedUrl (JStr emptyContentMessage)]"
      "cells w' = writeCell (writeCell (cells w) (rowNumber row) columns_status (JStr (statuses Failed)))
          (rowNumber row) columns_postedUrl (JStr emptyContentMessage)"
      "lock w' = lock w"
  | (plan) planType where "content row \<noteq> []" "getXPlanConfig E = (planType, None)"
      "r = Inl (JsError (invalidPlanMessage planType))"
      "trace w' = trace w @ [SetValue (rowNumber row) columns_status (JStr (statuses Posting))]"
      "cells w' = writeCell (cells w) (rowNumber row) columns_status (JStr (statuses Posting))"
      "lock w' = lock w"
  | (exceed) planType maxLength where "content row \<noteq> []"
      "getXPlanConfig E = (planType, Some maxLength)"
      "countTwitterCharacters (content row) > maxLength" "r = Inr prev"
      "trace w' = trace w @
         [SetValue (rowNumber row) columns_status (JStr (statuses Posting)),
          SetValue (rowNumber row) columns_status (JStr (statuses Failed)),
          SetValue (rowNumber row) columns_postedUrl
            (JStr (exceedMessage (countTwitterCharacters (content row)) maxLength))]"
      "cells w' =
         writeCell (writeCell (writeCell (cells w) (rowNumber row) columns_status (JStr (statuses Posting)))
           (rowNumber row) columns_status (JStr (statuses Failed)))
           (rowNumber row) columns_postedUrl
           (JStr (exceedMessage (countTwitterCharacters (content row)) maxLength))"
      "lock w' = lock w"
  | (publish) planType maxLength where "content row \<noteq> []"
      "getXPlanConfig E = (planType, Some maxLength)"
      "countTwitterCharacters (content row) \<le> maxLength"
      "publishThreadRow E i n row prev (setRowStatus w (rowNumber row) (statuses Posting) []) = (r, w')"
proof (cases "content row = []")
  case True
  with assms show ?thesis
    by (intro empty) (auto simp: threadStep_def)
next
  case False
  obtain planType lim where g: "getXPlanConfig E = (planType, lim)"
    by (cases "getXPlanConfig E")
  show ?thesis
  proof (cases lim)
    case None
    with assms False g show ?thesis
      by (intro plan [of planType]) (auto simp: threadStep_def characterLimit_enabled_def)
  next
    case (Some maxLength)
    show ?thesis
    proof (cases "countTwitterCharacters (content row) > maxLength")
      case True
      with assms False g Some show ?thesis
        by (intro exceed [of planType maxLength])
           (auto simp: threadStep_def characterLimit_enabled_def characterLimit_skipOnExceed_def Let_def)
    next
      case c: False
      with assms False g Some show ?thesis
        by (intro publish [of planType maxLength])
           (auto simp: threadStep_def characterLimit_enabled_def Let_def)
    qed
  qed
qed

lemma threadStep_summary:
  assumes "threadStep E i n row prev w = (r, w')"
  shows "lock w' = lock w"
    and "\<exists>evs. trace w' = trace w @ evs \<and>
           (\<forall>ev \<in> set evs. eventRow ev = None \<or> eventRow ev = Some (rowNumber row))"
    and "r' \<noteq> rowNumber row \<Longrightarrow> getValue (cells w') r' c = getValue (cells w) r' c"
    and "r = Inr p' \<Longrightarrow> lastId prev (newEvents w w') = p'"
proof -
  have "lock w' = lock w \<and>
    (\<exists>evs. trace w' = trace w @ evs \<and>
           (\<forall>ev \<in> set evs. eventRow ev = None \<or> eventRow ev = Some (rowNumber row))) \<and>
    (r' \<noteq> rowNumber row \<longrightarrow> getValue (cells w') r' c = getValue (cells w) r' c) \<and>
    (r = Inr p' \<longrightarrow> lastId prev (newEvents w w') = p')"
    using assms
  proof (cases rule: threadStep_cases)
    case empty
    then show ?thesis by (simp add: getValue_writeCell)
  next
    case (plan planType)
    then show ?thesis by (simp add: getValue_writeCell)
  next
    case (exceed planType maxLength)
    then show ?thesis by (simp add: getValue_writeCell)
  next
    case (publish planType maxLength)
    from publish(4) show ?thesis
    proof (cases rule: publishThreadRow_cases)
      case (images e)
      then show ?thesis by (simp add: getValue_writeCell)
    next
      case (failed e blobs)
      then show ?thesis by (simp add: getValue_writeCell)
    next
      case (posted tweetId tweetUrl blobs)
      then show ?thesis by (simp add: getValue_writeCell)
    qed
  qed
  then show "lock w' = lock w"
    and "\<exists>evs. trace w' = trace w @ evs \<and>
           (\<forall>ev \<in> set evs. eventRow ev = None \<or> eventRow ev = Some (rowNumber row))"
    and "r' \<noteq> rowNumber row \<Longrightarrow> getValue (cells w') r' c = getValue (cells w) r' c"
    and "r = Inr p' \<Longrightarrow> lastId prev (newEvents w w') = p'"
    by blast+
qed

lemma columns_distinct [simp]:
  "columns_status \<noteq> columns_postedUrl" "columns_postedUrl \<noteq> columns_status"
  "0 < columns_status" "0 < columns_postedUrl"
  by (simp_all add: columns_status_def columns_postedUrl_def)

lemma threadStep_call:
  assumes "threadStep E i n row prev w = (r, w')"
    and "Tweet c rp m out \<in> set (newEvents w w')"
  shows "c = content row \<and> rp = prev \<and> content row \<noteq> [] \<and>
     newEvents w w' =
       [SetValue (rowNumber row) columns_status (JStr (statuses Posting)),
        ThreadLog (i + 1) n (rowNumber row), Tweet c rp m out] @
       (case out of
          Inl e \<Rightarrow>
            [SetValue (rowNumber row) columns_status (JStr (statuses Failed)),
             SetValue (rowNumber row) columns_postedUrl (JStr (errorString e))]
        | Inr res \<Rightarrow>
            [SetValue (rowNumber row) columns_postedUrl (JStr (snd res)),
             SetValue (rowNumber row) columns_status (JStr (statuses Posted))] @
            (if i + 1 < n then [Sleep 1000] else [])) \<and>
     r = (case out of Inl e \<Rightarrow> Inl e | Inr res \<Rightarrow> Inr (Some (fst res))) \<and>
     (0 < rowNumber row \<longrightarrow>
        getValue (cells w') (rowNumber row) columns_status =
          (case out of Inl e \<Rightarrow> JStr (statuses Failed) | Inr res \<Rightarrow> JStr (statuses Posted)) \<and>
        getValue (cells w') (rowNumber row) columns_postedUrl =
          (case out of Inl e \<Rightarrow> JStr (errorString e) | Inr res \<Rightarrow> JStr (snd res)))"
  using assms(1)
proof (cases rule: threadStep_cases)
  case empty
  with assms(2) show ?thesis by simp
next
  case (plan planType)
  with assms(2) show ?thesis by simp
next
  case (exceed planType maxLength)
  with assms(2) show ?thesis by simp
next
  case (publish planType maxLength)
  from publish(4) show ?thesis
  proof (cases rule: publishThreadRow_cases)
    case (images e)
    with assms(2) show ?thesis by simp
  next
    case (failed e blobs)
    with assms(2) publish(1) show ?thesis
      by (auto simp: getValue_writeCell)
  next
    case (posted tweetId tweetUrl blobs)
    with assms(2) publish(1) show ?thesis
      by (auto simp: getValue_writeCell)
  qed
qed

lemma threadLoop_append:
  "threadLoop E i n (xs @ ys) p w =
     (case threadLoop E i n xs p w of
        (Inl e, w') \<Rightarrow> (Inl e, w')
      | (Inr p', w') \<Rightarrow> threadLoop E (i + length xs) n ys p' w')"
  by (induction xs arbitrary: i p w) (auto split: prod.splits sum.splits)

lemma threadLoop_summary:
  assumes "threadLoop E i n rows prev w = (r, w')"
  shows "lock w' = lock w \<and>
    (\<exists>evs. trace w' = trace w @ evs \<and>
       (\<forall>ev \<in> set evs. eventRow ev = None \<or> eventRow ev \<in> Some ` rowNumber ` set rows)) \<and>
    (\<forall>r' c. r' \<notin> rowNumber ` set rows \<longrightarrow> getValue (cells w') r' c = getValue (cells w) r' c) \<and>
    (\<forall>p'. r = Inr p' \<longrightarrow> lastId prev (newEvents w w') = p')"
  using assms
proof (induction rows arbitrary: i prev w)
  case Nil
  then show ?case by (auto simp: newEvents_def)
next
  case (Cons row rows)
  obtain r1 w1 where s: "threadStep E i n row prev w = (r1, w1)"
    by (cases "threadStep E i n row prev w")
  note sum = threadStep_summary [OF s]
  from sum(2) obtain evs1 where evs1: "trace w1 = trace w @ evs1"
    "\<forall>ev \<in> set evs1. eventRow ev = None \<or> eventRow ev = Some (rowNumber row)"
    by blast
  show ?case
  proof (cases r1)
    case (Inl e)
    with Cons.prems s have "r = Inl e" "w' = w1"
      by simp_all
    then show ?thesis
      using sum(1) sum(3) evs1 by auto
  next
    case (Inr p1)
    with Cons.prems s have l: "threadLoop E (i + 1) n rows p1 w1 = (r, w')"
      by simp
    note ih = Cons.IH [OF l]
    from ih obtain evs2 where evs2: "trace w' = trace w1 @ evs2"
      "\<forall>ev \<in> set evs2. eventRow ev = None \<or> eventRow ev \<in> Some ` rowNumber ` set rows"
      by blast
    have t: "trace w' = trace w @ (evs1 @ evs2)"
      using evs1(1) evs2(1) by simp
    have a: "\<forall>ev \<in> set (evs1 @ evs2).
        eventRow ev = None \<or> eventRow ev \<in> Some ` rowNumber ` set (row # rows)"
      using evs1(2) evs2(2) by auto
    have b: "\<forall>r' c. r' \<notin> rowNumber ` set (row # rows) \<longrightarrow>
        getValue (cells w') r' c = getValue (cells w) r' c"
      using ih sum(3) by auto
    have c: "\<forall>p'. r = Inr p' \<longrightarrow> lastId prev (newEvents w w') = p'"
    proof (intro allI impI)
      fix p'
      assume "r = Inr p'"
      then have "lastId p1 evs2 = p'"
        using ih evs2(1) by simp
      moreover have "lastId prev evs1 = p1"
        using sum(4) [OF Inr] evs1(1) by simp
      ultimately show "lastId prev (newEvents w w') = p'"
        using t by (simp add: lastId_append)
    qed
    show ?thesis
      using ih sum(1) t a b c by auto
  qed
qed


lemma threadStep_called:
  assumes "threadStep E i n row prev w = (r, w')"
    and "Tweet c rp m out \<in> set (newEvents w w')"
  shows "c = content row" "rp = prev" "content row \<noteq> []"
  using threadStep_call [OF assms] by simp_all

lemma threadStep_failed:
  assumes "threadStep E i n row prev w = (r, w')"
    and "Tweet c rp m (Inl e) \<in> set (newEvents w w')"
  shows "r = Inl e"
    and "newEvents w w' =
       [SetValue (rowNumber row) columns_status (JStr (statuses Posting)),
        ThreadLog (i + 1) n (rowNumber row), Tweet (content row) prev m (Inl e),
        SetValue (rowNumber row) columns_status (JStr (statuses Failed)),
        SetValue (rowNumber row) columns_postedUrl (JStr (errorString e))]"
    and "0 < rowNumber row \<Longrightarrow>
       getValue (cells w') (rowNumber row) columns_status = JStr (statuses Failed)"
    and "0 < rowNumber row \<Longrightarrow>
       getValue (cells w') (rowNumber row) columns_postedUrl = JStr (errorString e)"
  using threadStep_call [OF assms] by simp_all

lemma threadStep_posted:
  assumes "threadStep E i n row prev w = (r, w')"
    and "Tweet c rp m (Inr (tweetId, tweetUrl)) \<in> set (newEvents w w')"
  shows "r = Inr (Some tweetId)"
    and "newEvents w w' =
       [SetValue (rowNumber row) columns_status (JStr (statuses Posting)),
        ThreadLog (i + 1) n (rowNumber row),
        Tweet (content row) prev m (Inr (tweetId, tweetUrl)),
        SetValue (rowNumber row) columns_postedUrl (JStr tweetUrl),
        SetValue (rowNumber row) columns_status (JStr (statuses Posted))] @
       (if i + 1 < n then [Sleep 1000] else [])"
  using threadStep_call [OF assms] by simp_all

section \<open>The rows that the thread publisher resolves\<close>

lemma threadRowOf_Some:
  "threadRowOf E g index row = Some t \<longleftrightarrow>
     g = Some (rowGroupId E row) \<and> rowStatus E row \<noteq> statuses Posted \<and>
     rowStatus E row \<noteq> statuses Posting \<and> rowContent E row \<noteq> [] \<and>
     t = \<lparr>rowNumber = dataStartRow + index, content = rowContent E row, noteUrl = None,
          scheduledAt = None, threadGroupId = Some (rowGroupId E row)\<rparr>"
  by (auto simp: threadRowOf_def Let_def)

lemma threadScan_set:
  "t \<in> set (threadScan E g index vs) \<longleftrightarrow>
     (\<exists>i < length vs. threadRowOf E g (index + i) (vs ! i) = Some t)"
proof (induction vs arbitrary: index)
  case Nil
  show ?case by simp
next
  case (Cons row vs)
  have "(\<exists>i < Suc (length vs). threadRowOf E g (index + i) ((row # vs) ! i) = Some t) \<longleftrightarrow>
        threadRowOf E g index row = Some t \<or>
        (\<exists>i < length vs. threadRowOf E g (index + 1 + i) (vs ! i) = Some t)"
    by (simp add: Ex_less_Suc2)
  then show ?case
    using Cons.IH [of "index + 1"] by (auto split: option.splits)
qed

lemma threadRowOf_rowNumber:
  "threadRowOf E g index row = Some t \<Longrightarrow> rowNumber t = dataStartRow + index"
  by (auto simp: threadRowOf_Some)

lemma threadScan_lower:
  "t \<in> set (threadScan E g index vs) \<Longrightarrow> dataStartRow + index \<le> rowNumber t"
  by (auto simp: threadScan_set dest!: threadRowOf_rowNumber)

lemma threadScan_sorted:
  "sorted_wrt (<) (map rowNumber (threadScan E g index vs))"
proof (induction vs arbitrary: index)
  case Nil
  show ?case by simp
next
  case (Cons row vs)
  show ?case
  proof (cases "threadRowOf E g index row")
    case None
    then show ?thesis using Cons.IH by simp
  next
    case (Some t)
    have "rowNumber t < rowNumber u" if "u \<in> set (threadScan E g (index + 1) vs)" for u
      using threadScan_lower [OF that] threadRowOf_rowNumber [OF Some] by simp
    then show ?thesis
      using Some Cons.IH by auto
  qed
qed

lemma findThreadGroupRows_scan:
  "findThreadGroupRows E sh g = threadScan E g 0 (dataValues sh columns_threadGroupId)"
  by (simp add: findThreadGroupRows_def dataValues_def getValues_def getLastRow_def
        dataStartRow_def)

text \<open>A row array of the thread resolver against the array of the same row as the selector
  reads it: the same text and group id, and no status, since the array ends at the group
  id column.\<close>

lemma jsIndex_map:
  "jsIndex (map (cellAt r) [0..<n]) k = (if k < n then cellAt r k else Undefined)"
  by (simp add: jsIndex_def)

lemma narrow_row:
  "rowContent E (map (cellAt r) [0..<columns_threadGroupId]) =
     rowContent E (map (cellAt r) [0..<columns_status])"
  "rowGroupId E (map (cellAt r) [0..<columns_threadGroupId]) =
     rowGroupId E (map (cellAt r) [0..<columns_status])"
  "rowStatus E (map (cellAt r) [0..<columns_threadGroupId]) = []"
  by (simp_all add: rowContent_def rowGroupId_def rowStatus_def jsIndex_map cellText_def
        trim_def toLowerCase_def columns_threadGroupId_def columns_status_def
        columns_content_def)

lemma ascii_Nil_iff [simp]: "ascii s = [] \<longleftrightarrow> s = []" "[] = ascii s \<longleftrightarrow> s = []"
  by (auto simp: ascii_def)

lemma findThreadGroupRows_set:
  "t \<in> set (findThreadGroupRows E sh g) \<longleftrightarrow>
     (\<exists>i < length (dataValues sh columns_status).
        g = Some (rowGroupId E (dataValues sh columns_status ! i)) \<and>
        rowContent E (dataValues sh columns_status ! i) \<noteq> [] \<and>
        t = \<lparr>rowNumber = dataStartRow + i,
             content = rowContent E (dataValues sh columns_status ! i), noteUrl = None,
             scheduledAt = None,
             threadGroupId = Some (rowGroupId E (dataValues sh columns_status ! i))\<rparr>)"
  by (auto simp: findThreadGroupRows_scan threadScan_set threadRowOf_Some dataValues_rows narrow_row)

lemma findThreadGroupRows_sorted:
  "sorted_wrt (<) (map rowNumber (findThreadGroupRows E sh g))"
  by (simp add: findThreadGroupRows_scan threadScan_sorted)

lemma newEvents_self [simp]: "newEvents w w = []"
  by (simp add: newEvents_def)

lemma postThreadGroup_throw:
  assumes "findThreadGroupRows E (cells w) (threadGroupId tgt) = rows" "rows \<noteq> []"
    and "threadLoop E 0 (length rows) rows None w = (Inl e, w')"
  shows "postThreadGroup E tgt w = (Inl e, w')"
  using assms by (simp add: postThreadGroup_def Let_def)

lemma postThreadGroup_summary:
  assumes "postThreadGroup E tgt w = (r, w')"
  shows "lock w' = lock w \<and>
    (\<exists>evs. trace w' = trace w @ evs \<and>
       (\<forall>ev \<in> set evs. eventRow ev = None \<or>
          eventRow ev \<in> Some ` rowNumber ` set (findThreadGroupRows E (cells w) (threadGroupId tgt)))) \<and>
    (\<forall>r' c. r' \<notin> rowNumber ` set (findThreadGroupRows E (cells w) (threadGroupId tgt)) \<longrightarrow>
       getValue (cells w') r' c = getValue (cells w) r' c)"
proof -
  define rows where "rows = findThreadGroupRows E (cells w) (threadGroupId tgt)"
  show ?thesis
  proof (cases "rows = []")
    case True
    with assms have "w' = w"
      by (simp add: postThreadGroup_def Let_def rows_def)
    then show ?thesis by simp
  next
    case False
    obtain r1 w1 where l: "threadLoop E 0 (length rows) rows None w = (r1, w1)"
      by (cases "threadLoop E 0 (length rows) rows None w")
    note sum = threadLoop_summary [OF l]
    from sum obtain evs where evs: "trace w1 = trace w @ evs"
      "\<forall>ev \<in> set evs. eventRow ev = None \<or> eventRow ev \<in> Some ` rowNumber ` set rows"
      by blast
    consider "w' = w1" | n p where "w' = snd (postSingleTweet E (sleep w1 1000) n (Some p) [])"
      using assms l False
      by (auto simp: postThreadGroup_def Let_def rows_def [symmetric]
               split: sum.splits option.splits if_splits)
    then show ?thesis
    proof cases
      case 1
      then show ?thesis
        using sum evs unfolding rows_def by auto
    next
      case 2
      then have "lock w' = lock w1" "cells w' = cells w1"
        "trace w' = trace w @ (evs @ [Sleep 1000,
            Tweet n (Some p) [] (fst (postSingleTweet E (sleep w1 1000) n (Some p) []))])"
        using evs(1) by simp_all
      moreover have "\<forall>ev \<in> set (evs @ [Sleep 1000,
            Tweet n (Some p) [] (fst (postSingleTweet E (sleep w1 1000) n (Some p) []))]).
          eventRow ev = None \<or> eventRow ev \<in> Some ` rowNumber ` set rows"
        using evs(2) by auto
      ultimately show ?thesis
        using sum unfolding rows_def by (metis (no_types, lifting))
    qed
  qed
qed

lemma resolved_rowNumber:
  assumes "t \<in> set (findThreadGroupRows E sh g)"
  shows "0 < rowNumber t"
proof -
  from assms have "t \<in> set (threadScan E g 0 (dataValues sh columns_threadGroupId))"
    by (simp add: findThreadGroupRows_scan)
  then have "dataStartRow + 0 \<le> rowNumber t"
    by (rule threadScan_lower)
  then show ?thesis
    by (simp add: dataStartRow_def)
qed

lemma later_rows_distinct:
  assumes "sorted_wrt (<) (map rowNumber (before @ ri # after))" "row \<in> set after"
  shows "rowNumber row \<noteq> rowNumber ri" "rowNumber row \<notin> rowNumber ` set before"
    "Some (rowNumber row) \<notin> Some ` rowNumber ` set before"
proof -
  from assms have a: "rowNumber ri < rowNumber row"
    and b: "\<forall>x \<in> set before. rowNumber x < rowNumber row"
    by (auto simp: sorted_wrt_append)
  show "rowNumber row \<noteq> rowNumber ri"
    using a by simp
  show "rowNumber row \<notin> rowNumber ` set before"
    using b by fastforce
  then show "Some (rowNumber row) \<notin> Some ` rowNumber ` set before"
    by blast
qed

lemma loop_then_step:
  assumes pre: "threadLoop E 0 n before None w = (Inr p, w1)"
    and step: "threadStep E (length before) n ri p w1 = (r, w2)"
  shows "trace w2 = trace w @ newEvents w w1 @ newEvents w1 w2"
    and "\<forall>ev \<in> set (newEvents w w1). eventRow ev = None \<or> eventRow ev \<in> Some ` rowNumber ` set before"
    and "\<forall>ev \<in> set (newEvents w1 w2). eventRow ev = None \<or> eventRow ev = Some (rowNumber ri)"
    and "r' \<noteq> rowNumber ri \<Longrightarrow> r' \<notin> rowNumber ` set before \<Longrightarrow>
         getValue (cells w2) r' col = getValue (cells w) r' col"
    and "lock w2 = lock w"
proof -
  note s1 = threadLoop_summary [OF pre]
  note s2 = threadStep_summary [OF step]
  from s1 obtain evs1 where e1: "trace w1 = trace w @ evs1"
    "\<forall>ev \<in> set evs1. eventRow ev = None \<or> eventRow ev \<in> Some ` rowNumber ` set before"
    by blast
  from s2(2) obtain evs2 where e2: "trace w2 = trace w1 @ evs2"
    "\<forall>ev \<in> set evs2. eventRow ev = None \<or> eventRow ev = Some (rowNumber ri)"
    by blast
  show "trace w2 = trace w @ newEvents w w1 @ newEvents w1 w2"
    using e1(1) e2(1) by simp
  show "\<forall>ev \<in> set (newEvents w w1). eventRow ev = None \<or> eventRow ev \<in> Some ` rowNumber ` set before"
    using e1 by simp
  show "\<forall>ev \<in> set (newEvents w1 w2). eventRow ev = None \<or> eventRow ev = Some (rowNumber ri)"
    using e2 by simp
  show "getValue (cells w2) r' col = getValue (cells w) r' col"
    if "r' \<noteq> rowNumber ri" "r' \<notin> rowNumber ` set before"
    using that s1 s2(3) by simp
  show "lock w2 = lock w"
    using s1 s2(1) by simp
qed

section \<open>A failed publish call ends the thread\<close>

text \<open>
  Claim C3. Let the thread publisher resolve the rows \<open>before @ ri # after\<close>, let the loop
  have passed the rows \<open>before\<close> without an error, and let the pass for \<open>ri\<close> make a publish
  call that fails with the error \<open>e\<close>. Then the publisher ends with the error \<open>e\<close> in the
  state that this pass leaves; the pass ends with the two writes that mark \<open>ri\<close> failed
  with the text of the error, which the status and result cells of \<open>ri\<close> then hold; and for
  every row of \<open>after\<close> no cell has changed and no event of the run is about it: it is not
  marked, not announced and not published.
\<close>

theorem postThreadGroup_fail_fast:
  assumes rows: "findThreadGroupRows E (cells w) (threadGroupId tgt) = before @ ri # after"
    and pre: "threadLoop E 0 (length (before @ ri # after)) before None w = (Inr p, w1)"
    and step: "threadStep E (length before) (length (before @ ri # after)) ri p w1 = (r, w2)"
    and failed: "Tweet c rp m (Inl e) \<in> set (newEvents w1 w2)"
  shows "postThreadGroup E tgt w = (Inl e, w2) \<and>
     newEvents w1 w2 =
       [SetValue (rowNumber ri) columns_status (JStr (statuses Posting)),
        ThreadLog (length before + 1) (length (before @ ri # after)) (rowNumber ri),
        Tweet (content ri) p m (Inl e),
        SetValue (rowNumber ri) columns_status (JStr (statuses Failed)),
        SetValue (rowNumber ri) columns_postedUrl (JStr (errorString e))] \<and>
     getValue (cells w2) (rowNumber ri) columns_status = JStr (statuses Failed) \<and>
     getValue (cells w2) (rowNumber ri) columns_postedUrl = JStr (errorString e) \<and>
     (\<forall>row \<in> set after.
        (\<forall>col. getValue (cells w2) (rowNumber row) col = getValue (cells w) (rowNumber row) col) \<and>
        (\<forall>ev \<in> set (newEvents w w2). eventRow ev \<noteq> Some (rowNumber row)))"
proof -
  let ?n = "length (before @ ri # after)"
  note r = threadStep_failed(1) [OF step failed]
  have "threadLoop E 0 ?n (before @ ri # after) None w =
        threadLoop E (0 + length before) ?n (ri # after) p w1"
    by (simp only: threadLoop_append pre prod.case sum.case)
  also have "\<dots> = (Inl e, w2)"
    using step r by simp
  finally have thrown: "postThreadGroup E tgt w = (Inl e, w2)"
    using rows by (intro postThreadGroup_throw [where rows = "before @ ri # after"]) simp_all
  have "ri \<in> set (findThreadGroupRows E (cells w) (threadGroupId tgt))"
    unfolding rows by simp
  then have pos: "0 < rowNumber ri"
    by (rule resolved_rowNumber)
  have sorted: "sorted_wrt (<) (map rowNumber (before @ ri # after))"
    using findThreadGroupRows_sorted [of E "cells w" "threadGroupId tgt"] unfolding rows .
  note both = loop_then_step [OF pre step]
  have split: "newEvents w w2 = newEvents w w1 @ newEvents w1 w2"
    using both(1) by (rule newEvents_append)
  have later: "(\<forall>col. getValue (cells w2) (rowNumber row) col = getValue (cells w) (rowNumber row) col) \<and>
        (\<forall>ev \<in> set (newEvents w w2). eventRow ev \<noteq> Some (rowNumber row))"
    if "row \<in> set after" for row
  proof (intro conjI allI ballI)
    note d = later_rows_distinct [OF sorted that]
    show "getValue (cells w2) (rowNumber row) col = getValue (cells w) (rowNumber row) col" for col
      using d(1) d(2) by (rule both(4))
    show "eventRow ev \<noteq> Some (rowNumber row)" if "ev \<in> set (newEvents w w2)" for ev
    proof -
      from that consider "ev \<in> set (newEvents w w1)" | "ev \<in> set (newEvents w1 w2)"
        unfolding split by auto
      then show ?thesis
      proof cases
        case 1
        then have "eventRow ev = None \<or> eventRow ev \<in> Some ` rowNumber ` set before"
          using both(2) by blast
        then show ?thesis
          using d(3) by (metis option.distinct(1))
      next
        case 2
        then have "eventRow ev = None \<or> eventRow ev = Some (rowNumber ri)"
          using both(3) by blast
        then show ?thesis
          using d(1) by auto
      qed
    qed
  qed
  note ev = threadStep_failed(2) [OF step failed]
  note marked = threadStep_failed(3) [OF step failed pos] threadStep_failed(4) [OF step failed pos]
  have untouched: "\<forall>row \<in> set after.
        (\<forall>col. getValue (cells w2) (rowNumber row) col = getValue (cells w) (rowNumber row) col) \<and>
        (\<forall>ev \<in> set (newEvents w w2). eventRow ev \<noteq> Some (rowNumber row))"
    using later by (intro ballI)
  show ?thesis
    by (intro conjI thrown ev marked untouched)
qed

text \<open>On the three pending rows, with a posting API that fails every reply: row 2 is
  posted, the call for row 3 fails, the publisher ends with that error, row 3 is marked
  failed with the text of the error, and row 4 is still pending with no event about it.\<close>

theorem postThreadGroup_fail_fast_witness:
  "findThreadGroupRows repliesFailEnv (cells (startOf threadSheet))
      (threadGroupId (threadRow 2 ''one'')) =
     [threadRow 2 ''one''] @ threadRow 3 ''two'' # [threadRow 4 ''three''] \<and>
   threadLoop repliesFailEnv 0 3 [threadRow 2 ''one''] None (startOf threadSheet) =
     (Inr (Some (ascii ''id1'')), afterFirstPass) \<and>
   Tweet (ascii ''two'') (Some (ascii ''id1'')) [] (Inl (JsError (ascii ''X API 503'')))
     \<in> set (newEvents afterFirstPass afterSecondPass) \<and>
   postThreadGroup repliesFailEnv (threadRow 2 ''one'') (startOf threadSheet) =
     (Inl (JsError (ascii ''X API 503'')), afterSecondPass) \<and>
   getValue (cells afterSecondPass) 3 columns_status = JStr (ascii ''failed'') \<and>
   getValue (cells afterSecondPass) 3 columns_postedUrl = JStr (ascii ''Error: X API 503'') \<and>
   getValue (cells afterSecondPass) 4 columns_status = JStr (ascii ''pending'') \<and>
   Some 4 \<notin> eventRow ` set (newEvents (startOf threadSheet) afterSecondPass)"
proof -
  let ?E = repliesFailEnv
  let ?w = "startOf threadSheet"
  let ?t2 = "threadRow 2 ''one''"
  let ?t3 = "threadRow 3 ''two''"
  let ?t4 = "threadRow 4 ''three''"
  let ?e = "JsError (ascii ''X API 503'')"
  have rows: "findThreadGroupRows ?E (cells ?w) (threadGroupId ?t2) = [?t2] @ ?t3 # [?t4]"
    by code_simp
  have pre: "threadLoop ?E 0 (length ([?t2] @ ?t3 # [?t4])) [?t2] None ?w =
      (Inr (Some (ascii ''id1'')), afterFirstPass)"
    by code_simp
  have step: "threadStep ?E (length [?t2]) (length ([?t2] @ ?t3 # [?t4])) ?t3
      (Some (ascii ''id1'')) afterFirstPass = (Inl ?e, afterSecondPass)"
    by code_simp
  have failed: "Tweet (ascii ''two'') (Some (ascii ''id1'')) [] (Inl ?e)
      \<in> set (newEvents afterFirstPass afterSecondPass)"
    by code_simp
  note res = postThreadGroup_fail_fast [OF rows pre step failed]
  have n3: "rowNumber ?t3 = 3" and n4: "rowNumber ?t4 = 4"
    by (simp_all add: threadRow_def)
  have es: "errorString ?e = ascii ''Error: X API 503''" and fs: "statuses Failed = ascii ''failed''"
    by (simp_all add: ascii_def)
  have before: "getValue (cells ?w) 4 columns_status = JStr (ascii ''pending'')"
    by code_simp
  from res have thrown: "postThreadGroup ?E ?t2 ?w = (Inl ?e, afterSecondPass)"
    by (rule conjunct1)
  from res have "getValue (cells afterSecondPass) (rowNumber ?t3) columns_status = JStr (statuses Failed)"
    by (elim conjE)
  then have st: "getValue (cells afterSecondPass) 3 columns_status = JStr (ascii ''failed'')"
    unfolding n3 fs .
  from res have "getValue (cells afterSecondPass) (rowNumber ?t3) columns_postedUrl = JStr (errorString ?e)"
    by (elim conjE)
  then have url: "getValue (cells afterSecondPass) 3 columns_postedUrl = JStr (ascii ''Error: X API 503'')"
    unfolding n3 es .
  from res have later: "\<forall>row \<in> set [?t4].
        (\<forall>col. getValue (cells afterSecondPass) (rowNumber row) col = getValue (cells ?w) (rowNumber row) col) \<and>
        (\<forall>ev \<in> set (newEvents ?w afterSecondPass). eventRow ev \<noteq> Some (rowNumber row))"
    by (elim conjE)
  then have "getValue (cells afterSecondPass) (rowNumber ?t4) columns_status =
        getValue (cells ?w) (rowNumber ?t4) columns_status"
    and quiet: "\<forall>ev \<in> set (newEvents ?w afterSecondPass). eventRow ev \<noteq> Some (rowNumber ?t4)"
    by simp_all
  then have pend: "getValue (cells afterSecondPass) 4 columns_status = JStr (ascii ''pending'')"
    unfolding n4 using before by simp
  have none: "Some 4 \<notin> eventRow ` set (newEvents ?w afterSecondPass)"
    using quiet unfolding n4 by auto
  have pre3: "threadLoop ?E 0 3 [?t2] None ?w = (Inr (Some (ascii ''id1'')), afterFirstPass)"
    by code_simp
  show ?thesis
    by (intro conjI rows pre3 failed thrown st url pend none)
qed

section \<open>The reply chain of a thread\<close>

lemma threadLoop_extends:
  assumes "threadLoop E i n rows prev w = (r, w')"
  shows "\<exists>evs. trace w' = trace w @ evs"
  using threadLoop_summary [OF assms] by blast

lemma postThreadGroup_extends:
  assumes rows: "findThreadGroupRows E (cells w) (threadGroupId tgt) = before @ ri # after"
    and pre: "threadLoop E 0 (length (before @ ri # after)) before None w = (Inr p, w1)"
    and step: "threadStep E (length before) (length (before @ ri # after)) ri p w1 = (r, w2)"
    and run: "postThreadGroup E tgt w = (res, w')"
  shows "\<exists>evs. trace w' = trace w2 @ evs"
proof -
  let ?n = "length (before @ ri # after)"
  obtain r3 w3 where rest: "(case r of Inl e \<Rightarrow> (Inl e, w2)
      | Inr p' \<Rightarrow> threadLoop E (length before + 1) ?n after p' w2) = (r3, w3)"
    by (cases "(case r of Inl e \<Rightarrow> (Inl e, w2)
      | Inr p' \<Rightarrow> threadLoop E (length before + 1) ?n after p' w2)")
  have full: "threadLoop E 0 ?n (before @ ri # after) None w = (r3, w3)"
    using rest by (simp only: threadLoop_append pre prod.case sum.case threadLoop.simps step
        add_0)
  have w3: "\<exists>evs. trace w3 = trace w2 @ evs"
  proof (cases r)
    case (Inl e)
    with rest show ?thesis by simp
  next
    case (Inr p')
    with rest have "threadLoop E (length before + 1) ?n after p' w2 = (r3, w3)"
      by simp
    then show ?thesis
      by (rule threadLoop_extends)
  qed
  consider "w' = w3" | n q where "w' = snd (postSingleTweet E (sleep w3 1000) n (Some q) [])"
    using run full rows
    by (auto simp: postThreadGroup_def Let_def split: sum.splits option.splits if_splits)
  then show ?thesis
  proof cases
    case 1
    then show ?thesis using w3 by simp
  next
    case 2
    then show ?thesis using w3 by auto
  qed
qed

lemma single_pass:
  assumes "threadLoop E i n [r1] prev w = (Inr p, w1)"
  shows "threadStep E i n r1 prev w = (Inr p, w1)"
  using assms by (cases "threadStep E i n r1 prev w") (auto split: sum.splits)

text \<open>
  Claim C2, as amended. Let the thread publisher resolve the rows \<open>before @ ri # after\<close>,
  let the loop have passed the rows \<open>before\<close> without an error, and let the pass for \<open>ri\<close>
  make a publish call. The call carries the text of \<open>ri\<close>, and as its reply target the id
  returned by the most recent successful publish call of the passes for \<open>before\<close>, or no
  reply target when none of them succeeded (in particular for the first row); when \<open>ri\<close> is
  the second row and the call for the first row returned an id, it carries that id. In the
  trace of the run the events of the rows \<open>before\<close>, which are the rows with smaller row
  numbers, come before the events of \<open>ri\<close>, and the run of the publisher goes on from there.
\<close>

theorem postThreadGroup_reply_chain:
  assumes rows: "findThreadGroupRows E (cells w) (threadGroupId tgt) = before @ ri # after"
    and pre: "threadLoop E 0 (length (before @ ri # after)) before None w = (Inr p, w1)"
    and step: "threadStep E (length before) (length (before @ ri # after)) ri p w1 = (r, w2)"
    and called: "Tweet c rp m out \<in> set (newEvents w1 w2)"
  shows "c = content ri \<and> rp = p \<and> rp = lastId None (newEvents w w1) \<and>
     (before = [] \<longrightarrow> rp = None) \<and>
     (\<forall>r1 c1 m1 t1 u1.
        before = [r1] \<and> Tweet c1 None m1 (Inr (t1, u1)) \<in> set (newEvents w w1) \<longrightarrow>
        rp = Some t1) \<and>
     trace w2 = trace w @ newEvents w w1 @ newEvents w1 w2 \<and>
     (\<forall>ev \<in> set (newEvents w w1).
        eventRow ev = None \<or> eventRow ev \<in> Some ` rowNumber ` set before) \<and>
     (\<forall>ev \<in> set (newEvents w1 w2). eventRow ev = None \<or> eventRow ev = Some (rowNumber ri)) \<and>
     (\<forall>row \<in> set before. rowNumber row < rowNumber ri) \<and>
     (\<forall>res w'. postThreadGroup E tgt w = (res, w') \<longrightarrow> (\<exists>evs. trace w' = trace w2 @ evs))"
proof -
  note args = threadStep_called [OF step called]
  have last: "lastId None (newEvents w w1) = p"
    using threadLoop_summary [OF pre] by blast
  have first: "rp = None" if "before = []"
    using pre that args(2) by simp
  have second: "rp = Some t1"
    if "before = [r1] \<and> Tweet c1 None m1 (Inr (t1, u1)) \<in> set (newEvents w w1)"
    for r1 c1 m1 t1 u1
  proof -
    from that pre have "threadLoop E 0 (length (before @ ri # after)) [r1] None w = (Inr p, w1)"
      by simp
    then have "threadStep E 0 (length (before @ ri # after)) r1 None w = (Inr p, w1)"
      by (rule single_pass)
    from threadStep_posted(1) [OF this] that have "Inr p = Inr (Some t1)"
      by blast
    then show ?thesis
      using args(2) by simp
  qed
  note both = loop_then_step [OF pre step]
  have sorted: "sorted_wrt (<) (map rowNumber (before @ ri # after))"
    using findThreadGroupRows_sorted [of E "cells w" "threadGroupId tgt"] unfolding rows .
  then have order: "\<forall>row \<in> set before. rowNumber row < rowNumber ri"
    by (auto simp: sorted_wrt_append)
  have goes_on: "\<forall>res w'. postThreadGroup E tgt w = (res, w') \<longrightarrow>
      (\<exists>evs. trace w' = trace w2 @ evs)"
    using postThreadGroup_extends [OF rows pre step] by blast
  have a: "c = content ri" and b: "rp = p" and c: "rp = lastId None (newEvents w w1)"
    using args last by simp_all
  have d: "before = [] \<longrightarrow> rp = None"
    using first by blast
  have e: "\<forall>r1 c1 m1 t1 u1.
        before = [r1] \<and> Tweet c1 None m1 (Inr (t1, u1)) \<in> set (newEvents w w1) \<longrightarrow>
        rp = Some t1"
    using second by blast
  show ?thesis
    by (intro conjI a b c d e both(1) both(2) both(3) order goes_on)
qed

text \<open>On the three pending rows, when every call succeeds: the call for row 2 returns the
  id \<open>id2\<close>, and the call for row 3 carries it as its reply target.\<close>

theorem postThreadGroup_reply_chain_witness:
  "findThreadGroupRows exampleEnv (cells (startOf threadSheet))
      (threadGroupId (threadRow 2 ''one'')) =
     [threadRow 2 ''one''] @ threadRow 3 ''two'' # [threadRow 4 ''three''] \<and>
   threadLoop exampleEnv 0 3 [threadRow 2 ''one''] None (startOf threadSheet) =
     (Inr (Some (ascii ''id2'')), okFirstPass) \<and>
   Tweet (ascii ''one'') None [] (Inr (ascii ''id2'', ascii ''https://x.com/i/web/status/id2''))
     \<in> set (newEvents (startOf threadSheet) okFirstPass) \<and>
   Tweet (ascii ''two'') (Some (ascii ''id2'')) []
      (Inr (ascii ''id8'', ascii ''https://x.com/i/web/status/id8''))
     \<in> set (newEvents okFirstPass okSecondPass) \<and>
   Some (ascii ''id2'') = lastId None (newEvents (startOf threadSheet) okFirstPass) \<and>
   trace okSecondPass =
     trace (startOf threadSheet) @ newEvents (startOf threadSheet) okFirstPass @
     newEvents okFirstPass okSecondPass"
proof -
  let ?E = exampleEnv
  let ?w = "startOf threadSheet"
  let ?t2 = "threadRow 2 ''one''"
  let ?t3 = "threadRow 3 ''two''"
  let ?t4 = "threadRow 4 ''three''"
  have rows: "findThreadGroupRows ?E (cells ?w) (threadGroupId ?t2) = [?t2] @ ?t3 # [?t4]"
    by code_simp
  have pre: "threadLoop ?E 0 (length ([?t2] @ ?t3 # [?t4])) [?t2] None ?w =
      (Inr (Some (ascii ''id2'')), okFirstPass)"
    by code_simp
  have pre3: "threadLoop ?E 0 3 [?t2] None ?w = (Inr (Some (ascii ''id2'')), okFirstPass)"
    by code_simp
  have step: "threadStep ?E (length [?t2]) (length ([?t2] @ ?t3 # [?t4])) ?t3
      (Some (ascii ''id2'')) okFirstPass =
      (fst (threadStep ?E (length [?t2]) (length ([?t2] @ ?t3 # [?t4])) ?t3
         (Some (ascii ''id2'')) okFirstPass), okSecondPass)"
    by code_simp
  have one: "Tweet (ascii ''one'') None []
      (Inr (ascii ''id2'', ascii ''https://x.com/i/web/status/id2''))
      \<in> set (newEvents ?w okFirstPass)"
    by code_simp
  have two: "Tweet (ascii ''two'') (Some (ascii ''id2'')) []
      (Inr (ascii ''id8'', ascii ''https://x.com/i/web/status/id8''))
      \<in> set (newEvents okFirstPass okSecondPass)"
    by code_simp
  note res = postThreadGroup_reply_chain [OF rows pre step two]
  from res have last: "Some (ascii ''id2'') = lastId None (newEvents ?w okFirstPass)"
    by (elim conjE)
  from res have tr: "trace okSecondPass =
     trace ?w @ newEvents ?w okFirstPass @ newEvents okFirstPass okSecondPass"
    by (elim conjE)
  show ?thesis
    by (intro conjI rows pre3 one two last tr)
qed

text \<open>
  The claim as stated fails when the first row of the group is skipped for its length.
  The first row of this sheet counts 167 characters and the plan allows 140: the publisher
  resolves rows 2 and 3, the pass for row 2 makes no call and leaves the previous id
  undefined, and the call for row 3, the second row of the group, carries no reply target.
\<close>

theorem postThreadGroup_reply_chain_counterexample:
  "findThreadGroupRows exampleEnv longFirstSheet (Some (ascii ''g'')) =
     [threadRow 2 sevenLinks, threadRow 3 ''b''] \<and>
   threadStep exampleEnv 0 2 (threadRow 2 sevenLinks) None (startOf longFirstSheet) =
     (Inr None, afterSkip) \<and>
   filter (\<lambda>ev. eventRow ev = None) (newEvents (startOf longFirstSheet) afterSkip) = [] \<and>
   Tweet (ascii ''b'') None [] (Inr (ascii ''id5'', ascii ''https://x.com/i/web/status/id5''))
     \<in> set (newEvents afterSkip
              (snd (threadStep exampleEnv 1 2 (threadRow 3 ''b'') None afterSkip)))"
proof (intro conjI)
  show "findThreadGroupRows exampleEnv longFirstSheet (Some (ascii ''g'')) =
     [threadRow 2 sevenLinks, threadRow 3 ''b'']"
    by code_simp
  show "threadStep exampleEnv 0 2 (threadRow 2 sevenLinks) None (startOf longFirstSheet) =
     (Inr None, afterSkip)"
    by code_simp
  show "filter (\<lambda>ev. eventRow ev = None) (newEvents (startOf longFirstSheet) afterSkip) = []"
    by code_simp
  show "Tweet (ascii ''b'') None [] (Inr (ascii ''id5'', ascii ''https://x.com/i/web/status/id5''))
     \<in> set (newEvents afterSkip
              (snd (threadStep exampleEnv 1 2 (threadRow 3 ''b'') None afterSkip)))"
    by code_simp
qed

section \<open>What the thread publisher resolves, and rows without text\<close>

lemma threadStep_first_write:
  assumes "threadStep E i n row prev w = (r, w')" "content row \<noteq> []"
  shows "\<exists>evs. newEvents w w' =
     SetValue (rowNumber row) columns_status (JStr (statuses Posting)) # evs"
  using assms(1)
proof (cases rule: threadStep_cases)
  case empty
  with assms(2) show ?thesis by simp
next
  case (plan planType)
  then show ?thesis by simp
next
  case (exceed planType maxLength)
  then show ?thesis by simp
next
  case (publish planType maxLength)
  from publish(4) show ?thesis
    by (cases rule: publishThreadRow_cases) simp_all
qed

lemma resolved_row:
  assumes "t \<in> set (findThreadGroupRows E sh (Some g))"
  shows "\<exists>i < length (dataValues sh columns_status).
     t = \<lparr>rowNumber = dataStartRow + i,
          content = rowContent E (dataValues sh columns_status ! i), noteUrl = None,
          scheduledAt = None, threadGroupId = Some g\<rparr> \<and>
     rowGroupId E (dataValues sh columns_status ! i) = g \<and>
     rowContent E (dataValues sh columns_status ! i) \<noteq> []"
  using assms unfolding findThreadGroupRows_set by auto

lemma resolved_complete:
  assumes "i < length (dataValues sh columns_status)"
    and "rowGroupId E (dataValues sh columns_status ! i) = g"
    and "rowContent E (dataValues sh columns_status ! i) \<noteq> []"
  shows "dataStartRow + i \<in> rowNumber ` set (findThreadGroupRows E sh (Some g))"
proof -
  let ?t = "\<lparr>rowNumber = dataStartRow + i,
          content = rowContent E (dataValues sh columns_status ! i), noteUrl = None,
          scheduledAt = None,
          threadGroupId = Some (rowGroupId E (dataValues sh columns_status ! i))\<rparr>"
  have "?t \<in> set (findThreadGroupRows E sh (Some g))"
    unfolding findThreadGroupRows_set using assms by blast
  then have "rowNumber ?t \<in> rowNumber ` set (findThreadGroupRows E sh (Some g))"
    by (rule imageI)
  then show ?thesis by simp
qed

lemma empty_not_resolved:
  assumes "rowContent E (dataValues sh columns_status ! i) = []"
  shows "dataStartRow + i \<notin> rowNumber ` set (findThreadGroupRows E sh (Some g))"
proof
  assume "dataStartRow + i \<in> rowNumber ` set (findThreadGroupRows E sh (Some g))"
  then obtain t where t: "t \<in> set (findThreadGroupRows E sh (Some g))"
    "rowNumber t = dataStartRow + i"
    by auto
  from resolved_row [OF t(1)] obtain j where
    "t = \<lparr>rowNumber = dataStartRow + j,
          content = rowContent E (dataValues sh columns_status ! j), noteUrl = None,
          scheduledAt = None, threadGroupId = Some g\<rparr>"
    "rowContent E (dataValues sh columns_status ! j) \<noteq> []"
    by blast
  with t(2) assms show False by simp
qed

text \<open>
  Claim C5, as amended. Every row that the thread publisher resolves for the group \<open>g\<close> is
  a data row with that group id and a text that is not empty, and it carries the row
  number and the trimmed text of that row; the resolved rows are in store order; every
  data row with the group id, a text and a status other than posted and posting is
  resolved. A row without text is not resolved, so the empty-content check of the loop
  never fires: the pass for a resolved row starts with the write of posting, and a run of
  the publisher changes no cell of a row that is not resolved and has no event about it.
  The theorem says nothing on rows whose status is posted or posting.
\<close>

theorem findThreadGroupRows_resolves:
  "(\<forall>t \<in> set (findThreadGroupRows E sh (Some g)).
      \<exists>i < length (dataValues sh columns_status).
        t = \<lparr>rowNumber = dataStartRow + i,
             content = rowContent E (dataValues sh columns_status ! i), noteUrl = None,
             scheduledAt = None, threadGroupId = Some g\<rparr> \<and>
        rowGroupId E (dataValues sh columns_status ! i) = g \<and>
        rowContent E (dataValues sh columns_status ! i) \<noteq> []) \<and>
   sorted_wrt (<) (map rowNumber (findThreadGroupRows E sh (Some g))) \<and>
   (\<forall>i < length (dataValues sh columns_status).
      rowGroupId E (dataValues sh columns_status ! i) = g \<and>
      rowContent E (dataValues sh columns_status ! i) \<noteq> [] \<and>
      rowStatus E (dataValues sh columns_status ! i) \<noteq> ascii ''posted'' \<and>
      rowStatus E (dataValues sh columns_status ! i) \<noteq> ascii ''posting'' \<longrightarrow>
      dataStartRow + i \<in> rowNumber ` set (findThreadGroupRows E sh (Some g))) \<and>
   (\<forall>i. rowContent E (dataValues sh columns_status ! i) = [] \<longrightarrow>
      dataStartRow + i \<notin> rowNumber ` set (findThreadGroupRows E sh (Some g))) \<and>
   (\<forall>t \<in> set (findThreadGroupRows E sh (Some g)). \<forall>i n p w.
      \<exists>evs. newEvents w (snd (threadStep E i n t p w)) =
        SetValue (rowNumber t) columns_status (JStr (statuses Posting)) # evs) \<and>
   (\<forall>tgt w r.
      threadGroupId tgt = Some g \<and> cells w = sh \<and>
      r \<notin> rowNumber ` set (findThreadGroupRows E sh (Some g)) \<longrightarrow>
      (\<forall>c. getValue (cells (snd (postThreadGroup E tgt w))) r c = getValue sh r c) \<and>
      (\<forall>ev \<in> set (newEvents w (snd (postThreadGroup E tgt w))). eventRow ev \<noteq> Some r))"
proof (intro conjI)
  show "\<forall>t \<in> set (findThreadGroupRows E sh (Some g)).
      \<exists>i < length (dataValues sh columns_status).
        t = \<lparr>rowNumber = dataStartRow + i,
             content = rowContent E (dataValues sh columns_status ! i), noteUrl = None,
             scheduledAt = None, threadGroupId = Some g\<rparr> \<and>
        rowGroupId E (dataValues sh columns_status ! i) = g \<and>
        rowContent E (dataValues sh columns_status ! i) \<noteq> []"
    using resolved_row by blast
  show "sorted_wrt (<) (map rowNumber (findThreadGroupRows E sh (Some g)))"
    by (rule findThreadGroupRows_sorted)
  show "\<forall>i < length (dataValues sh columns_status).
      rowGroupId E (dataValues sh columns_status ! i) = g \<and>
      rowContent E (dataValues sh columns_status ! i) \<noteq> [] \<and>
      rowStatus E (dataValues sh columns_status ! i) \<noteq> ascii ''posted'' \<and>
      rowStatus E (dataValues sh columns_status ! i) \<noteq> ascii ''posting'' \<longrightarrow>
      dataStartRow + i \<in> rowNumber ` set (findThreadGroupRows E sh (Some g))"
    using resolved_complete by blast
  show "\<forall>i. rowContent E (dataValues sh columns_status ! i) = [] \<longrightarrow>
      dataStartRow + i \<notin> rowNumber ` set (findThreadGroupRows E sh (Some g))"
    using empty_not_resolved by blast
  show "\<forall>t \<in> set (findThreadGroupRows E sh (Some g)). \<forall>i n p w.
      \<exists>evs. newEvents w (snd (threadStep E i n t p w)) =
        SetValue (rowNumber t) columns_status (JStr (statuses Posting)) # evs"
  proof (intro ballI allI)
    fix t :: target and i n :: nat and p :: "jsstring option" and w :: world
    assume "t \<in> set (findThreadGroupRows E sh (Some g))"
    then have c: "content t \<noteq> []"
      using resolved_row [of t E sh g] by auto
    have "threadStep E i n t p w = (fst (threadStep E i n t p w), snd (threadStep E i n t p w))"
      by simp
    then show "\<exists>evs. newEvents w (snd (threadStep E i n t p w)) =
        SetValue (rowNumber t) columns_status (JStr (statuses Posting)) # evs"
      using c by (rule threadStep_first_write)
  qed
  show "\<forall>tgt w r.
      threadGroupId tgt = Some g \<and> cells w = sh \<and>
      r \<notin> rowNumber ` set (findThreadGroupRows E sh (Some g)) \<longrightarrow>
      (\<forall>c. getValue (cells (snd (postThreadGroup E tgt w))) r c = getValue sh r c) \<and>
      (\<forall>ev \<in> set (newEvents w (snd (postThreadGroup E tgt w))). eventRow ev \<noteq> Some r)"
  proof (intro allI impI)
    fix tgt :: target and w :: world and r :: nat
    assume a: "threadGroupId tgt = Some g \<and> cells w = sh \<and>
      r \<notin> rowNumber ` set (findThreadGroupRows E sh (Some g))"
    have "postThreadGroup E tgt w = (fst (postThreadGroup E tgt w), snd (postThreadGroup E tgt w))"
      by simp
    note sum = postThreadGroup_summary [OF this]
    from sum obtain evs where evs: "trace (snd (postThreadGroup E tgt w)) = trace w @ evs"
      "\<forall>ev \<in> set evs. eventRow ev = None \<or>
          eventRow ev \<in> Some ` rowNumber ` set (findThreadGroupRows E (cells w) (threadGroupId tgt))"
      by blast
    have n: "newEvents w (snd (postThreadGroup E tgt w)) = evs"
      using evs(1) by (rule newEvents_append)
    have quiet: "\<forall>ev \<in> set (newEvents w (snd (postThreadGroup E tgt w))). eventRow ev \<noteq> Some r"
    proof
      fix ev
      assume "ev \<in> set (newEvents w (snd (postThreadGroup E tgt w)))"
      then have "eventRow ev = None \<or>
          eventRow ev \<in> Some ` rowNumber ` set (findThreadGroupRows E sh (Some g))"
        using evs(2) a unfolding n by auto
      moreover have "Some r \<notin> Some ` rowNumber ` set (findThreadGroupRows E sh (Some g))"
        using a by blast
      ultimately show "eventRow ev \<noteq> Some r"
        by (metis option.distinct(1))
    qed
    have same: "\<forall>c. getValue (cells (snd (postThreadGroup E tgt w))) r c = getValue sh r c"
      using sum a by auto
    show "(\<forall>c. getValue (cells (snd (postThreadGroup E tgt w))) r c = getValue sh r c) \<and>
      (\<forall>ev \<in> set (newEvents w (snd (postThreadGroup E tgt w))). eventRow ev \<noteq> Some r)"
      using same quiet by (rule conjI)
  qed
qed

text \<open>On the sheet with a row without text between two rows of the group: row 2 has the
  group id, a text and the status pending, and is resolved; row 3 has no text and is not
  resolved, and a run of the publisher leaves its status cell as it was.\<close>

theorem findThreadGroupRows_resolves_witness:
  "0 < length (dataValues gapSheet columns_status) \<and>
   rowGroupId exampleEnv (dataValues gapSheet columns_status ! 0) = ascii ''g'' \<and>
   rowContent exampleEnv (dataValues gapSheet columns_status ! 0) \<noteq> [] \<and>
   rowStatus exampleEnv (dataValues gapSheet columns_status ! 0) = ascii ''pending'' \<and>
   dataStartRow + 0 \<in> rowNumber ` set (findThreadGroupRows exampleEnv gapSheet (Some (ascii ''g''))) \<and>
   rowContent exampleEnv (dataValues gapSheet columns_status ! 1) = [] \<and>
   dataStartRow + 1 \<notin> rowNumber ` set (findThreadGroupRows exampleEnv gapSheet (Some (ascii ''g''))) \<and>
   getValue (cells (snd (postThreadGroup exampleEnv (threadRow 2 ''one'') (startOf gapSheet))))
     (dataStartRow + 1) columns_status = getValue gapSheet (dataStartRow + 1) columns_status"
proof -
  let ?vs = "dataValues gapSheet columns_status"
  have l: "0 < length ?vs"
    and g: "rowGroupId exampleEnv (?vs ! 0) = ascii ''g''"
    and c: "rowContent exampleEnv (?vs ! 0) \<noteq> []"
    and s: "rowStatus exampleEnv (?vs ! 0) = ascii ''pending''"
    and e: "rowContent exampleEnv (?vs ! 1) = []"
    by code_simp+
  have s1: "rowStatus exampleEnv (?vs ! 0) \<noteq> ascii ''posted''"
    and s2: "rowStatus exampleEnv (?vs ! 0) \<noteq> ascii ''posting''"
    unfolding s by (simp_all add: ascii_def)
  note inst = findThreadGroupRows_resolves [of exampleEnv gapSheet "ascii ''g''"]
  from inst have "\<forall>i < length ?vs.
      rowGroupId exampleEnv (?vs ! i) = ascii ''g'' \<and> rowContent exampleEnv (?vs ! i) \<noteq> [] \<and>
      rowStatus exampleEnv (?vs ! i) \<noteq> ascii ''posted'' \<and>
      rowStatus exampleEnv (?vs ! i) \<noteq> ascii ''posting'' \<longrightarrow>
      dataStartRow + i \<in> rowNumber ` set (findThreadGroupRows exampleEnv gapSheet (Some (ascii ''g'')))"
    by (elim conjE)
  then have first: "dataStartRow + 0 \<in>
      rowNumber ` set (findThreadGroupRows exampleEnv gapSheet (Some (ascii ''g'')))"
    using l g c s1 s2 by blast
  from inst have "\<forall>i. rowContent exampleEnv (?vs ! i) = [] \<longrightarrow>
      dataStartRow + i \<notin> rowNumber ` set (findThreadGroupRows exampleEnv gapSheet (Some (ascii ''g'')))"
    by (elim conjE)
  then have gap: "dataStartRow + 1 \<notin>
      rowNumber ` set (findThreadGroupRows exampleEnv gapSheet (Some (ascii ''g'')))"
    using e by blast
  from inst have "\<forall>tgt w r.
      threadGroupId tgt = Some (ascii ''g'') \<and> cells w = gapSheet \<and>
      r \<notin> rowNumber ` set (findThreadGroupRows exampleEnv gapSheet (Some (ascii ''g''))) \<longrightarrow>
      (\<forall>c. getValue (cells (snd (postThreadGroup exampleEnv tgt w))) r c = getValue gapSheet r c) \<and>
      (\<forall>ev \<in> set (newEvents w (snd (postThreadGroup exampleEnv tgt w))). eventRow ev \<noteq> Some r)"
    by (elim conjE)
  moreover have "threadGroupId (threadRow 2 ''one'') = Some (ascii ''g'')"
    "cells (startOf gapSheet) = gapSheet"
    by (simp_all add: threadRow_def startOf_def)
  ultimately have same: "getValue
      (cells (snd (postThreadGroup exampleEnv (threadRow 2 ''one'') (startOf gapSheet))))
      (dataStartRow + 1) columns_status = getValue gapSheet (dataStartRow + 1) columns_status"
    using gap by blast
  show ?thesis
    by (intro conjI l g c s first e gap same)
qed

text \<open>
  The claim as stated fails on that sheet: row 3 has the group id and no text, the
  publisher resolves rows 2 and 4 only, and after its run row 3 is still pending with an
  empty result cell; it is not marked failed.
\<close>

theorem findThreadGroupRows_empty_content_counterexample:
  "rowGroupId exampleEnv (dataValues gapSheet columns_status ! 1) = ascii ''g'' \<and>
   rowContent exampleEnv (dataValues gapSheet columns_status ! 1) = [] \<and>
   findThreadGroupRows exampleEnv gapSheet (Some (ascii ''g'')) =
     [threadRow 2 ''one'', threadRow 4 ''three''] \<and>
   getValue (cells (snd (postThreadGroup exampleEnv (threadRow 2 ''one'') (startOf gapSheet))))
     3 columns_status = JStr (ascii ''pending'') \<and>
   getValue (cells (snd (postThreadGroup exampleEnv (threadRow 2 ''one'') (startOf gapSheet))))
     3 columns_postedUrl = JStr []"
proof -
  have g: "rowGroupId exampleEnv (dataValues gapSheet columns_status ! 1) = ascii ''g''"
    and e: "rowContent exampleEnv (dataValues gapSheet columns_status ! 1) = []"
    and rows: "findThreadGroupRows exampleEnv gapSheet (Some (ascii ''g'')) =
      [threadRow 2 ''one'', threadRow 4 ''three'']"
    and st: "getValue gapSheet 3 columns_status = JStr (ascii ''pending'')"
    and url: "getValue gapSheet 3 columns_postedUrl = JStr []"
    by code_simp+
  have tg: "threadGroupId (threadRow 2 ''one'') = Some (ascii ''g'')"
    and cw: "cells (startOf gapSheet) = gapSheet"
    by (simp_all add: threadRow_def startOf_def)
  have "postThreadGroup exampleEnv (threadRow 2 ''one'') (startOf gapSheet) =
      (fst (postThreadGroup exampleEnv (threadRow 2 ''one'') (startOf gapSheet)),
       snd (postThreadGroup exampleEnv (threadRow 2 ''one'') (startOf gapSheet)))"
    by simp
  note sum = postThreadGroup_summary [OF this]
  have "3 \<notin> rowNumber ` set (findThreadGroupRows exampleEnv (cells (startOf gapSheet))
      (threadGroupId (threadRow 2 ''one'')))"
    unfolding tg cw rows by (simp add: threadRow_def)
  with sum have same: "getValue
      (cells (snd (postThreadGroup exampleEnv (threadRow 2 ''one'') (startOf gapSheet)))) 3 c =
      getValue gapSheet 3 c" for c
    unfolding cw by blast
  show ?thesis
    by (intro conjI g e rows) (simp_all only: same st url)
qed

section \<open>The single-post publisher and the coordinator\<close>

lemma messages_differ [simp]:
  "errorString e \<noteq> emptyContentMessage" "exceedMessage a b \<noteq> emptyContentMessage"
  "emptyContentMessage \<noteq> errorString e" "emptyContentMessage \<noteq> exceedMessage a b"
  by (cases e; simp add: emptyContentMessage_def exceedMessage_def ascii_def)+

lemma postSingleTweet_result:
  obtains (thrown) e where "postSingleTweet E w t rp m =
      (Inl e, w\<lparr>trace := trace w @ [Tweet t rp m (Inl e)]\<rparr>)"
  | (posted) tweetId where "tweetId \<noteq> []" "postSingleTweet E w t rp m =
      (Inr (tweetId, ascii ''https://x.com/i/web/status/'' @ tweetId),
       w\<lparr>trace := trace w @
          [Tweet t rp m (Inr (tweetId, ascii ''https://x.com/i/web/status/'' @ tweetId))]\<rparr>)"
proof (cases "fst (postSingleTweet E w t rp m)")
  case (Inl e)
  then have "postSingleTweet E w t rp m = (Inl e, w\<lparr>trace := trace w @ [Tweet t rp m (Inl e)]\<rparr>)"
    by (auto simp: postSingleTweet_def Let_def split: sum.splits if_splits)
  then show ?thesis by (rule thrown)
next
  case (Inr res)
  then obtain tweetId where "tweetId \<noteq> []"
    "res = (tweetId, ascii ''https://x.com/i/web/status/'' @ tweetId)"
    by (auto simp: postSingleTweet_def Let_def split: sum.splits if_splits)
  with Inr have "postSingleTweet E w t rp m =
      (Inr (tweetId, ascii ''https://x.com/i/web/status/'' @ tweetId),
       w\<lparr>trace := trace w @
          [Tweet t rp m (Inr (tweetId, ascii ''https://x.com/i/web/status/'' @ tweetId))]\<rparr>)"
    by (auto simp: postSingleTweet_def Let_def split: sum.splits if_splits)
  with \<open>tweetId \<noteq> []\<close> show ?thesis by (rule posted)
qed

lemma url_differs [simp]:
  "ascii ''https://x.com/i/web/status/'' @ tweetId \<noteq> emptyContentMessage"
  "emptyContentMessage \<noteq> ascii ''https://x.com/i/web/status/'' @ tweetId"
  by (simp_all add: emptyContentMessage_def ascii_def)

lemma publishSingle_summary:
  assumes "publishSingle E t w = (r, w')"
  shows "lock w' = lock w \<and>
    (\<exists>evs. trace w' = trace w @ evs \<and>
       SetValue (rowNumber t) columns_postedUrl (JStr emptyContentMessage) \<notin> set evs)"
proof (cases "getImagesFromCell E (rowNumber t)")
  case (Inl e)
  with assms show ?thesis
    by (auto simp: publishSingle_def)
next
  case (Inr blobs)
  show ?thesis
  proof (cases rule: postSingleTweet_result [of E w "content t" None "uploadAll E blobs"])
    case (thrown e)
    with assms Inr show ?thesis
      by (auto simp: publishSingle_def Let_def)
  next
    case (posted tweetId)
    with assms Inr show ?thesis
      by (auto simp: publishSingle_def Let_def split: option.splits if_splits)
  qed
qed

lemma postSingleRow_summary:
  assumes "postSingleRow E t w = (r, w')"
  shows "lock w' = lock w \<and> (\<exists>evs. trace w' = trace w @ evs)"
proof (cases "content t = []")
  case True
  with assms show ?thesis
    by (auto simp: postSingleRow_def)
next
  case False
  obtain planType lim where g: "getXPlanConfig E = (planType, lim)"
    by (cases "getXPlanConfig E")
  let ?w1 = "setRowStatus w (rowNumber t) (statuses Posting) []"
  consider "w' = ?w1"
    | m where "w' = setRowStatus ?w1 (rowNumber t) (statuses Failed) m"
    | "publishSingle E t ?w1 = (r, w')"
    using assms False g
    by (auto simp: postSingleRow_def Let_def characterLimit_enabled_def
          characterLimit_skipOnExceed_def split: option.splits if_splits)
  then show ?thesis
  proof cases
    case 1
    then show ?thesis by simp
  next
    case 2
    then show ?thesis by simp
  next
    case 3
    from publishSingle_summary [OF 3] show ?thesis
      by auto
  qed
qed

lemma postSingleRow_nonempty:
  assumes "postSingleRow E t w = (r, w')" "content t \<noteq> []"
  shows "\<exists>evs. newEvents w w' =
      SetValue (rowNumber t) columns_status (JStr (statuses Posting)) # evs \<and>
      SetValue (rowNumber t) columns_postedUrl (JStr emptyContentMessage) \<notin> set evs"
proof -
  obtain planType lim where g: "getXPlanConfig E = (planType, lim)"
    by (cases "getXPlanConfig E")
  let ?w1 = "setRowStatus w (rowNumber t) (statuses Posting) []"
  consider "w' = ?w1"
    | a b where "w' = setRowStatus ?w1 (rowNumber t) (statuses Failed) (exceedMessage a b)"
    | "publishSingle E t ?w1 = (r, w')"
    using assms g
    by (auto simp: postSingleRow_def Let_def characterLimit_enabled_def
          characterLimit_skipOnExceed_def split: option.splits if_splits)
  then show ?thesis
  proof cases
    case 1
    then show ?thesis by simp
  next
    case 2
    then show ?thesis by simp
  next
    case 3
    from publishSingle_summary [OF 3] obtain evs where
      "trace w' = trace w @ SetValue (rowNumber t) columns_status (JStr (statuses Posting)) # evs"
      "SetValue (rowNumber t) columns_postedUrl (JStr emptyContentMessage) \<notin> set evs"
      by auto
    then show ?thesis by simp
  qed
qed

lemma runLocked_summary:
  assumes "runLocked E now w = (r, w')"
  shows "lock w' = lock w \<and> (\<exists>evs. trace w' = trace w @ evs)"
proof -
  consider "w' = w"
    | tgt where "postThreadGroup E tgt w = (r, w')"
    | tgt where "postSingleRow E tgt w = (r, w')"
    using assms by (auto simp: runLocked_def Let_def split: option.splits if_splits)
  then show ?thesis
  proof cases
    case 1
    then show ?thesis by simp
  next
    case 2
    from postThreadGroup_summary [OF 2] show ?thesis by blast
  next
    case 3
    from postSingleRow_summary [OF 3] show ?thesis by blast
  qed
qed

section \<open>The lock\<close>

text \<open>
  Claim C7. Whenever the run acquires the lock (no other run holds it), the lock is free
  when the run ends, whatever the body of the run did: returned after a publish, returned
  because no row was due, or thrown an error. The result of the run is the result of its
  body, so an error thrown there reaches the caller; the release is the last event of the
  run, after everything the body did.
\<close>

theorem postNextScheduledToX_releases_lock:
  assumes "lock w \<noteq> LockHeldElsewhere"
  shows "lock (snd (postNextScheduledToX E now w)) = LockFree \<and>
     fst (postNextScheduledToX E now w) = fst (runLocked E now (w\<lparr>lock := LockHeldHere\<rparr>)) \<and>
     (\<exists>evs. trace (snd (runLocked E now (w\<lparr>lock := LockHeldHere\<rparr>))) = trace w @ evs \<and>
        trace (snd (postNextScheduledToX E now w)) = trace w @ evs @ [ReleaseLock]) \<and>
     cells (snd (postNextScheduledToX E now w)) =
       cells (snd (runLocked E now (w\<lparr>lock := LockHeldHere\<rparr>)))"
proof -
  obtain r w2 where body: "runLocked E now (w\<lparr>lock := LockHeldHere\<rparr>) = (r, w2)"
    by (cases "runLocked E now (w\<lparr>lock := LockHeldHere\<rparr>)")
  from runLocked_summary [OF body] obtain evs where
    held: "lock w2 = LockHeldHere" and evs: "trace w2 = trace w @ evs"
    by auto
  have run: "postNextScheduledToX E now w = (r, releaseLock w2)"
    using assms body by (simp add: postNextScheduledToX_def tryLock_def)
  have "lock (releaseLock w2) = LockFree" "trace (releaseLock w2) = trace w @ evs @ [ReleaseLock]"
    "cells (releaseLock w2) = cells w2"
    using held evs by (simp_all add: releaseLock_def)
  then show ?thesis
    using run body evs by auto
qed

text \<open>With no credential set and a row due, the body throws the configuration error; the
  run returns that error and the lock is free.\<close>

theorem postNextScheduledToX_releases_lock_witness:
  "lock (startOf exampleSheet) \<noteq> LockHeldElsewhere \<and>
   fst (runLocked noCredentialsEnv 1793665800000 ((startOf exampleSheet)\<lparr>lock := LockHeldHere\<rparr>)) =
     Inl (JsError credentialsMessage) \<and>
   fst (postNextScheduledToX noCredentialsEnv 1793665800000 (startOf exampleSheet)) =
     Inl (JsError credentialsMessage) \<and>
   lock (snd (postNextScheduledToX noCredentialsEnv 1793665800000 (startOf exampleSheet))) =
     LockFree"
proof -
  have free: "lock (startOf exampleSheet) \<noteq> LockHeldElsewhere"
    by (simp add: startOf_def)
  have body: "fst (runLocked noCredentialsEnv 1793665800000
      ((startOf exampleSheet)\<lparr>lock := LockHeldHere\<rparr>)) = Inl (JsError credentialsMessage)"
    by code_simp
  note res = postNextScheduledToX_releases_lock [OF free, of noCredentialsEnv 1793665800000]
  from res have released: "lock (snd (postNextScheduledToX noCredentialsEnv 1793665800000
      (startOf exampleSheet))) = LockFree"
    by (rule conjunct1)
  from res have "fst (postNextScheduledToX noCredentialsEnv 1793665800000 (startOf exampleSheet)) =
      fst (runLocked noCredentialsEnv 1793665800000 ((startOf exampleSheet)\<lparr>lock := LockHeldHere\<rparr>))"
    by (elim conjE)
  then have thrown: "fst (postNextScheduledToX noCredentialsEnv 1793665800000
      (startOf exampleSheet)) = Inl (JsError credentialsMessage)"
    unfolding body .
  show ?thesis
    by (intro conjI free body thrown released)
qed

section \<open>Credentials and selection\<close>

lemma unlock_cells [simp]: "cells (w\<lparr>lock := l\<rparr>) = cells w"
  by simp

text \<open>
  Claim C8, as amended. Once the lock is held and the sheet is found, the coordinator
  selects the due row first. When no row is due it returns without an error and without
  reading the credentials, whatever they are. When a row is due and one of the four
  credential properties is missing or empty it throws the configuration error, before any
  write and any call (the state is unchanged); when all four are set it hands the selected
  row to the thread publisher or the single-post publisher. The same holds for the whole
  run when the lock is acquired.
\<close>

theorem runLocked_credentials_after_selection:
  "(sheetFound E \<and> findNextPublishableRow E (cells w) now = None \<longrightarrow>
      runLocked E now w = (Inr (), w)) \<and>
   (\<forall>t. sheetFound E \<and> findNextPublishableRow E (cells w) now = Some t \<and>
      (falsy (scriptProperty E X_API_KEY) \<or> falsy (scriptProperty E X_API_SECRET) \<or>
       falsy (scriptProperty E X_ACCESS_TOKEN) \<or> falsy (scriptProperty E X_ACCESS_TOKEN_SECRET)) \<longrightarrow>
      runLocked E now w = (Inl (JsError credentialsMessage), w)) \<and>
   (\<forall>t. sheetFound E \<and> findNextPublishableRow E (cells w) now = Some t \<and>
      \<not> falsy (scriptProperty E X_API_KEY) \<and> \<not> falsy (scriptProperty E X_API_SECRET) \<and>
      \<not> falsy (scriptProperty E X_ACCESS_TOKEN) \<and>
      \<not> falsy (scriptProperty E X_ACCESS_TOKEN_SECRET) \<longrightarrow>
      runLocked E now w =
        (if \<not> falsy (threadGroupId t) then postThreadGroup E t w else postSingleRow E t w)) \<and>
   (lock w \<noteq> LockHeldElsewhere \<and> sheetFound E \<and>
      findNextPublishableRow E (cells w) now = None \<longrightarrow>
      fst (postNextScheduledToX E now w) = Inr ()) \<and>
   (\<forall>t. lock w \<noteq> LockHeldElsewhere \<and> sheetFound E \<and>
      findNextPublishableRow E (cells w) now = Some t \<and>
      (falsy (scriptProperty E X_API_KEY) \<or> falsy (scriptProperty E X_API_SECRET) \<or>
       falsy (scriptProperty E X_ACCESS_TOKEN) \<or> falsy (scriptProperty E X_ACCESS_TOKEN_SECRET)) \<longrightarrow>
      fst (postNextScheduledToX E now w) = Inl (JsError credentialsMessage))"
proof (intro conjI allI impI)
  assume "sheetFound E \<and> findNextPublishableRow E (cells w) now = None"
  then show "runLocked E now w = (Inr (), w)"
    by (simp add: runLocked_def)
next
  fix t
  assume "sheetFound E \<and> findNextPublishableRow E (cells w) now = Some t \<and>
      (falsy (scriptProperty E X_API_KEY) \<or> falsy (scriptProperty E X_API_SECRET) \<or>
       falsy (scriptProperty E X_ACCESS_TOKEN) \<or> falsy (scriptProperty E X_ACCESS_TOKEN_SECRET))"
  then show "runLocked E now w = (Inl (JsError credentialsMessage), w)"
    by (auto simp: runLocked_def Let_def)
next
  fix t
  assume "sheetFound E \<and> findNextPublishableRow E (cells w) now = Some t \<and>
      \<not> falsy (scriptProperty E X_API_KEY) \<and> \<not> falsy (scriptProperty E X_API_SECRET) \<and>
      \<not> falsy (scriptProperty E X_ACCESS_TOKEN) \<and>
      \<not> falsy (scriptProperty E X_ACCESS_TOKEN_SECRET)"
  then show "runLocked E now w =
        (if \<not> falsy (threadGroupId t) then postThreadGroup E t w else postSingleRow E t w)"
    by (simp add: runLocked_def Let_def)
next
  assume "lock w \<noteq> LockHeldElsewhere \<and> sheetFound E \<and>
      findNextPublishableRow E (cells w) now = None"
  then show "fst (postNextScheduledToX E now w) = Inr ()"
    by (simp add: postNextScheduledToX_def tryLock_def runLocked_def)
next
  fix t
  assume "lock w \<noteq> LockHeldElsewhere \<and> sheetFound E \<and>
      findNextPublishableRow E (cells w) now = Some t \<and>
      (falsy (scriptProperty E X_API_KEY) \<or> falsy (scriptProperty E X_API_SECRET) \<or>
       falsy (scriptProperty E X_ACCESS_TOKEN) \<or> falsy (scriptProperty E X_ACCESS_TOKEN_SECRET))"
  then show "fst (postNextScheduledToX E now w) = Inl (JsError credentialsMessage)"
    by (auto simp: postNextScheduledToX_def tryLock_def runLocked_def Let_def)
qed

text \<open>With no credential set: at 9:30 row 5 of the example sheet is due and the body throws
  the configuration error in the unchanged state; at midnight of the epoch no row is due
  and the body returns.\<close>

theorem runLocked_credentials_after_selection_witness:
  "sheetFound noCredentialsEnv \<and> falsy (scriptProperty noCredentialsEnv X_API_KEY) \<and>
   map_option rowNumber
     (findNextPublishableRow noCredentialsEnv (cells (startOf exampleSheet)) 1793665800000) =
     Some 5 \<and>
   runLocked noCredentialsEnv 1793665800000 (startOf exampleSheet) =
     (Inl (JsError credentialsMessage), startOf exampleSheet) \<and>
   findNextPublishableRow noCredentialsEnv (cells (startOf exampleSheet)) 0 = None \<and>
   runLocked noCredentialsEnv 0 (startOf exampleSheet) = (Inr (), startOf exampleSheet)"
proof -
  let ?t = "\<lparr>rowNumber = 5, content = ascii ''hi'', noteUrl = None,
           scheduledAt = Some 1793666100000, threadGroupId = None\<rparr>"
  have f: "sheetFound noCredentialsEnv" and k: "falsy (scriptProperty noCredentialsEnv X_API_KEY)"
    by code_simp+
  have due: "findNextPublishableRow noCredentialsEnv (cells (startOf exampleSheet)) 1793665800000 =
      Some ?t"
    by code_simp
  have none: "findNextPublishableRow noCredentialsEnv (cells (startOf exampleSheet)) 0 = None"
    by code_simp
  note a = runLocked_credentials_after_selection
    [of noCredentialsEnv "startOf exampleSheet" 1793665800000, THEN conjunct2, THEN conjunct1,
     THEN spec, THEN mp, OF conjI [OF f conjI [OF due disjI1 [OF k]]]]
  note b = runLocked_credentials_after_selection
    [of noCredentialsEnv "startOf exampleSheet" 0, THEN conjunct1, THEN mp, OF conjI [OF f none]]
  have n: "map_option rowNumber
     (findNextPublishableRow noCredentialsEnv (cells (startOf exampleSheet)) 1793665800000) =
     Some 5"
    unfolding due by simp
  show ?thesis
    by (intro conjI f k n a none b)
qed

text \<open>
  The claim as stated fails: with no credential set and no row due, the run ends without
  an error. Nothing reads the credentials before the selection.
\<close>

theorem postNextScheduledToX_no_due_row_counterexample:
  "falsy (scriptProperty noCredentialsEnv X_API_KEY) \<and>
   falsy (scriptProperty noCredentialsEnv X_API_SECRET) \<and>
   falsy (scriptProperty noCredentialsEnv X_ACCESS_TOKEN) \<and>
   falsy (scriptProperty noCredentialsEnv X_ACCESS_TOKEN_SECRET) \<and>
   lock (startOf exampleSheet) = LockFree \<and>
   findNextPublishableRow noCredentialsEnv (cells (startOf exampleSheet)) 0 = None \<and>
   postNextScheduledToX noCredentialsEnv 0 (startOf exampleSheet) =
     (Inr (), \<lparr>cells = exampleSheet, trace = [ReleaseLock], lock = LockFree\<rparr>)"
  by code_simp

section \<open>The selected row has a text\<close>

lemma findLoop_content: "findLoop E now i vs = Some t \<Longrightarrow> content t \<noteq> []"
proof (induction vs arbitrary: i)
  case Nil
  then show ?case by simp
next
  case (Cons row vs)
  show ?case
  proof (cases "eligible E now row")
    case True
    with Cons.prems have "t = targetOf E i row"
      by (simp add: selectRow_eligible)
    then show ?thesis
      using True by (simp add: targetOf_def eligible_def)
  next
    case False
    with Cons.prems have "findLoop E now (i + 1) vs = Some t"
      by (simp add: selectRow_eligible)
    then show ?thesis
      by (rule Cons.IH)
  qed
qed

text \<open>
  Claim C10. Every row that the selector returns has a text that is not empty. When the
  coordinator hands a selected row without a thread group to the single-post publisher, it
  hands over that very row in the state the selector read; the publisher then starts with
  the write of posting, which is the branch for a row with text, and no event of it writes
  the empty-content message to the row: the empty-content branch is not taken.
\<close>

theorem selected_row_has_content:
  "(\<forall>t. findNextPublishableRow E sh now = Some t \<longrightarrow> content t \<noteq> []) \<and>
   (\<forall>t w. sheetFound E \<and> findNextPublishableRow E (cells w) now = Some t \<and>
      \<not> falsy (scriptProperty E X_API_KEY) \<and> \<not> falsy (scriptProperty E X_API_SECRET) \<and>
      \<not> falsy (scriptProperty E X_ACCESS_TOKEN) \<and>
      \<not> falsy (scriptProperty E X_ACCESS_TOKEN_SECRET) \<and> falsy (threadGroupId t) \<longrightarrow>
      runLocked E now w = postSingleRow E t w) \<and>
   (\<forall>t w. findNextPublishableRow E (cells w) now = Some t \<longrightarrow>
      (\<exists>evs. newEvents w (snd (postSingleRow E t w)) =
         SetValue (rowNumber t) columns_status (JStr (statuses Posting)) # evs \<and>
         SetValue (rowNumber t) columns_postedUrl (JStr emptyContentMessage) \<notin> set evs))"
proof (intro conjI allI impI)
  fix t
  assume "findNextPublishableRow E sh now = Some t"
  then show "content t \<noteq> []"
    unfolding findNext_findLoop by (rule findLoop_content)
next
  fix t :: target and w :: world
  assume "sheetFound E \<and> findNextPublishableRow E (cells w) now = Some t \<and>
      \<not> falsy (scriptProperty E X_API_KEY) \<and> \<not> falsy (scriptProperty E X_API_SECRET) \<and>
      \<not> falsy (scriptProperty E X_ACCESS_TOKEN) \<and>
      \<not> falsy (scriptProperty E X_ACCESS_TOKEN_SECRET) \<and> falsy (threadGroupId t)"
  then show "runLocked E now w = postSingleRow E t w"
    by (simp add: runLocked_def Let_def)
next
  fix t :: target and w :: world
  assume "findNextPublishableRow E (cells w) now = Some t"
  then have c: "content t \<noteq> []"
    unfolding findNext_findLoop by (rule findLoop_content)
  have "postSingleRow E t w = (fst (postSingleRow E t w), snd (postSingleRow E t w))"
    by simp
  then show "\<exists>evs. newEvents w (snd (postSingleRow E t w)) =
         SetValue (rowNumber t) columns_status (JStr (statuses Posting)) # evs \<and>
         SetValue (rowNumber t) columns_postedUrl (JStr emptyContentMessage) \<notin> set evs"
    using c by (rule postSingleRow_nonempty)
qed

text \<open>On the example sheet at 9:30 the selector returns row 5 with the text \<open>hi\<close> and no
  thread group; the coordinator's body is the single-post publisher on that row.\<close>

theorem selected_row_has_content_witness:
  "findNextPublishableRow exampleEnv (cells (startOf exampleSheet)) 1793665800000 =
     Some \<lparr>rowNumber = 5, content = ascii ''hi'', noteUrl = None,
           scheduledAt = Some 1793666100000, threadGroupId = None\<rparr> \<and>
   content \<lparr>rowNumber = 5, content = ascii ''hi'', noteUrl = None,
           scheduledAt = Some 1793666100000, threadGroupId = None\<rparr> \<noteq> [] \<and>
   runLocked exampleEnv 1793665800000 (startOf exampleSheet) =
     postSingleRow exampleEnv
       \<lparr>rowNumber = 5, content = ascii ''hi'', noteUrl = None,
        scheduledAt = Some 1793666100000, threadGroupId = None\<rparr> (startOf exampleSheet)"
proof -
  let ?t = "\<lparr>rowNumber = 5, content = ascii ''hi'', noteUrl = None,
           scheduledAt = Some 1793666100000, threadGroupId = None\<rparr>"
  have due: "findNextPublishableRow exampleEnv (cells (startOf exampleSheet)) 1793665800000 =
      Some ?t"
    by code_simp
  have f: "sheetFound exampleEnv"
    and k: "\<not> falsy (scriptProperty exampleEnv X_API_KEY)"
      "\<not> falsy (scriptProperty exampleEnv X_API_SECRET)"
      "\<not> falsy (scriptProperty exampleEnv X_ACCESS_TOKEN)"
      "\<not> falsy (scriptProperty exampleEnv X_ACCESS_TOKEN_SECRET)"
    and g: "falsy (threadGroupId ?t)"
    by code_simp+
  note a = selected_row_has_content
    [of exampleEnv "cells (startOf exampleSheet)" 1793665800000, THEN conjunct1, THEN spec,
     THEN mp, OF due]
  note b = selected_row_has_content
    [of exampleEnv "cells (startOf exampleSheet)" 1793665800000, THEN conjunct2, THEN conjunct1,
     THEN spec, THEN spec, THEN mp,
     OF conjI [OF f conjI [OF due conjI [OF k(1) conjI [OF k(2) conjI [OF k(3) conjI [OF k(4) g]]]]]]]
  show ?thesis
    by (intro conjI due a b)
qed

section \<open>A posted row of a thread group is published again\<close>

text \<open>
  Claim C6 against the code, on a sheet whose group \<open>g\<close> has row 2 already posted and row 3
  pending, both due. The selector skips row 2, whose status it reads as posted, and
  returns row 3. The thread resolver reads a range that ends at the group id column, so
  the status it reads for row 2 is empty: it resolves rows 2 and 3, and the pass for row 2
  writes posting over posted, publishes the text of row 2 again and writes posted.
\<close>

theorem postThreadGroup_reposts_posted_row:
  "getValue repostSheet 2 columns_status = JStr (ascii ''posted'') \<and>
   rowStatus exampleEnv (dataValues repostSheet columns_status ! 0) = ascii ''posted'' \<and>
   rowStatus exampleEnv (dataValues repostSheet columns_threadGroupId ! 0) = [] \<and>
   findNextPublishableRow exampleEnv repostSheet 1793665800000 =
     Some \<lparr>rowNumber = 3, content = ascii ''two'', noteUrl = None,
           scheduledAt = Some 1793665800000, threadGroupId = Some (ascii ''g'')\<rparr> \<and>
   findThreadGroupRows exampleEnv repostSheet (Some (ascii ''g'')) =
     [threadRow 2 ''one'', threadRow 3 ''two''] \<and>
   newEvents (startOf repostSheet)
     (snd (threadStep exampleEnv 0 2 (threadRow 2 ''one'') None (startOf repostSheet))) =
     [SetValue 2 columns_status (JStr (ascii ''posting'')), ThreadLog 1 2 2,
      Tweet (ascii ''one'') None []
        (Inr (ascii ''id2'', ascii ''https://x.com/i/web/status/id2'')),
      SetValue 2 columns_postedUrl (JStr (ascii ''https://x.com/i/web/status/id2'')),
      SetValue 2 columns_status (JStr (ascii ''posted'')), Sleep 1000]"
proof (intro conjI)
  show "getValue repostSheet 2 columns_status = JStr (ascii ''posted'')"
    by code_simp
  show "rowStatus exampleEnv (dataValues repostSheet columns_status ! 0) = ascii ''posted''"
    by code_simp
  show "rowStatus exampleEnv (dataValues repostSheet columns_threadGroupId ! 0) = []"
    by code_simp
  show "findNextPublishableRow exampleEnv repostSheet 1793665800000 =
     Some \<lparr>rowNumber = 3, content = ascii ''two'', noteUrl = None,
           scheduledAt = Some 1793665800000, threadGroupId = Some (ascii ''g'')\<rparr>"
    by code_simp
  show "findThreadGroupRows exampleEnv repostSheet (Some (ascii ''g'')) =
     [threadRow 2 ''one'', threadRow 3 ''two'']"
    by code_simp
  show "newEvents (startOf repostSheet)
     (snd (threadStep exampleEnv 0 2 (threadRow 2 ''one'') None (startOf repostSheet))) =
     [SetValue 2 columns_status (JStr (ascii ''posting'')), ThreadLog 1 2 2,
      Tweet (ascii ''one'') None []
        (Inr (ascii ''id2'', ascii ''https://x.com/i/web/status/id2'')),
      SetValue 2 columns_postedUrl (JStr (ascii ''https://x.com/i/web/status/id2'')),
      SetValue 2 columns_status (JStr (ascii ''posted'')), Sleep 1000]"
    by code_simp
qed

end
